theory Spec2Isabelle
  imports Main "HOL-Library.Word"
begin

section \<open>Data model\<close>

text \<open>
  Go strings and the text handed to the parser are byte sequences: \<open>string\<close> (a list of
  8-bit \<open>char\<close>s).  A \<open>net.HardwareAddr\<close> is a byte slice: a list of 8-bit words.
\<close>

type_synonym byte = "8 word"
type_synonym HardwareAddr = "byte list"

text \<open>
  The errors the package builds with \<open>fmt.Errorf\<close>, one constructor per format string,
  and the two library errors it passes on: \<open>net.AddrError\<close> of \<open>net.ParseMAC\<close> and
  \<open>bufio.ErrTooLong\<close> of the line scanner.
\<close>

datatype error =
    AddrError string
  | InvalidMAC string error
  | BadLength nat
  | LoadFailed string error
  | LineError nat error
  | ProviderNotFound string
  | ProviderLoadFailed string error
  | ErrTooLong

section \<open>Functions of the Go standard library\<close>

text \<open>
  The package calls \<open>strings.TrimSpace\<close>, \<open>strings.HasPrefix\<close>, \<open>strings.TrimPrefix\<close>,
  \<open>net.ParseMAC\<close> and a \<open>bufio.Scanner\<close>.  They are transcribed here from the Go
  standard library, on bytes as \<open>char\<close>s; \<open>bv\<close> reads a byte as a number.
\<close>

subsection \<open>unicode/utf8 and strings.TrimSpace\<close>

definition bv :: "char \<Rightarrow> nat" where
  "bv c = of_char c"

definition RuneError :: nat where
  "RuneError = 0xFFFD"

text \<open>
  \<open>utf8.DecodeRuneInString\<close>: the first rune of \<open>s\<close> and its width in bytes.  The table
  \<open>first\<close> and the accept ranges of the library are written out as the comparisons on
  the first byte \<open>s0\<close>: ASCII below \<open>0x80\<close>, no rune starts with \<open>0x80\<close> to \<open>0xC1\<close> or
  above \<open>0xF4\<close>, otherwise the size \<open>sz\<close> and the range \<open>lo\<close> to \<open>hi\<close> of the second
  byte.  Bytes that are no encoding give \<open>(RuneError, 1)\<close>.
\<close>

fun DecodeRune :: "string \<Rightarrow> nat \<times> nat" where
  "DecodeRune [] = (RuneError, 0)"
| "DecodeRune (c0 # p) =
     (let s0 = bv c0 in
      if s0 < 0x80 then (s0, 1)
      else if s0 < 0xC2 \<or> 0xF4 < s0 then (RuneError, 1)
      else
        (let sz = (if s0 < 0xE0 then 2 else if s0 < 0xF0 then 3 else 4 :: nat);
             lo = (if s0 = 0xE0 then 0xA0 else if s0 = 0xF0 then 0x90 else 0x80);
             hi = (if s0 = 0xED then 0x9F else if s0 = 0xF4 then 0x8F else 0xBF)
         in if length (c0 # p) < sz then (RuneError, 1)
            else (let s1 = bv (p ! 0) in
              if s1 < lo \<or> hi < s1 then (RuneError, 1)
              else if sz \<le> 2 then ((s0 mod 32) * 64 + s1 mod 64, 2)
              else (let s2 = bv (p ! 1) in
                if s2 < 0x80 \<or> 0xBF < s2 then (RuneError, 1)
                else if sz \<le> 3 then ((s0 mod 16) * 4096 + (s1 mod 64) * 64 + s2 mod 64, 3)
                else (let s3 = bv (p ! 2) in
                  if s3 < 0x80 \<or> 0xBF < s3 then (RuneError, 1)
                  else ((s0 mod 8) * 262144 + (s1 mod 64) * 4096 + (s2 mod 64) * 64
                          + s3 mod 64, 4))))))"

definition RuneStart :: "char \<Rightarrow> bool" where
  "RuneStart c = (\<not> (0x80 \<le> bv c \<and> bv c < 0xC0))"

text \<open>
  \<open>utf8.DecodeLastRuneInString\<close>: the last rune of \<open>s\<close> and its width.  The library's
  loop steps back from the byte before the last one, over at most three bytes, to a byte
  that starts a rune; it is written out for its three rounds.  When it finds none,
  \<open>start\<close> is one below the limit \<open>e - 4\<close>, and 0 when that is negative.
\<close>

definition DecodeLastRune :: "string \<Rightarrow> nat \<times> nat" where
  "DecodeLastRune s =
     (let e = length s in
      if e = 0 then (RuneError, 0)
      else if bv (s ! (e - 1)) < 0x80 then (bv (s ! (e - 1)), 1)
      else
        (let start =
               (if 2 \<le> e \<and> RuneStart (s ! (e - 2)) then e - 2
                else if 3 \<le> e \<and> RuneStart (s ! (e - 3)) then e - 3
                else if 4 \<le> e \<and> RuneStart (s ! (e - 4)) then e - 4
                else e - 5)
         in (case DecodeRune (drop start s) of
               (r, n) \<Rightarrow> if start + n \<noteq> e then (RuneError, 1) else (r, n))))"

text \<open>\<open>unicode.IsSpace\<close>: the Latin-1 cases and the rest of the table \<open>White_Space\<close>.\<close>

definition IsSpace :: "nat \<Rightarrow> bool" where
  "IsSpace r =
     (if r \<le> 0xFF then r \<in> {0x09, 0x0A, 0x0B, 0x0C, 0x0D, 0x20, 0x85, 0xA0}
      else r = 0x1680 \<or> (0x2000 \<le> r \<and> r \<le> 0x200A) \<or> r = 0x2028 \<or> r = 0x2029
           \<or> r = 0x202F \<or> r = 0x205F \<or> r = 0x3000)"

text \<open>
  For the proofs: \<open>wf_enc e r\<close> says that the bytes \<open>e\<close> are, all of them, the encoding
  of the rune \<open>r\<close>.  \<open>DecodeRune\<close> returns either \<open>(RuneError, 1)\<close> or such an encoding
  at the head of its argument, whatever follows it.
\<close>

fun wf_enc :: "string \<Rightarrow> nat \<Rightarrow> bool" where
  "wf_enc [c0] r = (bv c0 < 0x80 \<and> r = bv c0)"
| "wf_enc [c0, c1] r =
     (0xC2 \<le> bv c0 \<and> bv c0 < 0xE0 \<and> 0x80 \<le> bv c1 \<and> bv c1 \<le> 0xBF \<and>
      r = (bv c0 mod 32) * 64 + bv c1 mod 64)"
| "wf_enc [c0, c1, c2] r =
     (0xE0 \<le> bv c0 \<and> bv c0 < 0xF0 \<and>
      (if bv c0 = 0xE0 then 0xA0 else 0x80) \<le> bv c1 \<and>
      bv c1 \<le> (if bv c0 = 0xED then 0x9F else 0xBF) \<and>
      0x80 \<le> bv c2 \<and> bv c2 \<le> 0xBF \<and>
      r = (bv c0 mod 16) * 4096 + (bv c1 mod 64) * 64 + bv c2 mod 64)"
| "wf_enc [c0, c1, c2, c3] r =
     (0xF0 \<le> bv c0 \<and> bv c0 \<le> 0xF4 \<and>
      (if bv c0 = 0xF0 then 0x90 else 0x80) \<le> bv c1 \<and>
      bv c1 \<le> (if bv c0 = 0xF4 then 0x8F else 0xBF) \<and>
      0x80 \<le> bv c2 \<and> bv c2 \<le> 0xBF \<and> 0x80 \<le> bv c3 \<and> bv c3 \<le> 0xBF \<and>
      r = (bv c0 mod 8) * 262144 + (bv c1 mod 64) * 4096 + (bv c2 mod 64) * 64 + bv c3 mod 64)"
| "wf_enc _ r = False"

lemma DecodeRune_wf: "wf_enc e r \<Longrightarrow> DecodeRune (e @ t) = (r, length e)"
  by (induction e r rule: wf_enc.induct) (simp_all add: Let_def split: if_splits)

lemma DecodeRune_ascii: "bv c0 < 0x80 \<Longrightarrow> DecodeRune (c0 # p) = (bv c0, 1)"
  by simp

lemma DecodeRune_bad_lead:
  "0x80 \<le> bv c0 \<Longrightarrow> bv c0 < 0xC2 \<or> 0xF4 < bv c0 \<Longrightarrow> DecodeRune (c0 # p) = (RuneError, 1)"
  by auto

lemma DecodeRune_two:
  "0xC2 \<le> bv c0 \<Longrightarrow> bv c0 < 0xE0 \<Longrightarrow>
   DecodeRune (c0 # p) =
     (case p of [] \<Rightarrow> (RuneError, 1)
      | c1 # p1 \<Rightarrow> if 0x80 \<le> bv c1 \<and> bv c1 \<le> 0xBF
                     then ((bv c0 mod 32) * 64 + bv c1 mod 64, 2) else (RuneError, 1))"
  by (auto simp: Let_def split: list.splits)

lemma DecodeRune_three:
  "0xE0 \<le> bv c0 \<Longrightarrow> bv c0 < 0xF0 \<Longrightarrow>
   DecodeRune (c0 # p) =
     (case p of c1 # c2 # p2 \<Rightarrow>
        if (if bv c0 = 0xE0 then 0xA0 else 0x80) \<le> bv c1 \<and>
           bv c1 \<le> (if bv c0 = 0xED then 0x9F else 0xBF) \<and> 0x80 \<le> bv c2 \<and> bv c2 \<le> 0xBF
        then ((bv c0 mod 16) * 4096 + (bv c1 mod 64) * 64 + bv c2 mod 64, 3) else (RuneError, 1)
      | _ \<Rightarrow> (RuneError, 1))"
  by (auto simp: Let_def split: list.splits)

lemma DecodeRune_four:
  "0xF0 \<le> bv c0 \<Longrightarrow> bv c0 \<le> 0xF4 \<Longrightarrow>
   DecodeRune (c0 # p) =
     (case p of c1 # c2 # c3 # p3 \<Rightarrow>
        if (if bv c0 = 0xF0 then 0x90 else 0x80) \<le> bv c1 \<and>
           bv c1 \<le> (if bv c0 = 0xF4 then 0x8F else 0xBF) \<and> 0x80 \<le> bv c2 \<and> bv c2 \<le> 0xBF
           \<and> 0x80 \<le> bv c3 \<and> bv c3 \<le> 0xBF
        then ((bv c0 mod 8) * 262144 + (bv c1 mod 64) * 4096 + (bv c2 mod 64) * 64 + bv c3 mod 64, 4)
        else (RuneError, 1)
      | _ \<Rightarrow> (RuneError, 1))"
  by (auto simp: Let_def split: list.splits)


declare DecodeRune.simps(2) [simp del]

lemma DecodeRune_cases:
  assumes "s \<noteq> []"
  shows "DecodeRune s = (RuneError, 1) \<or>
         (wf_enc (take (snd (DecodeRune s)) s) (fst (DecodeRune s)) \<and> snd (DecodeRune s) \<le> length s)"
proof -
  obtain c0 p where s: "s = c0 # p" using assms by (cases s) auto
  consider (a) "bv c0 < 0x80" | (x) "0x80 \<le> bv c0" "bv c0 < 0xC2 \<or> 0xF4 < bv c0"
    | (two) "0xC2 \<le> bv c0" "bv c0 < 0xE0" | (three) "0xE0 \<le> bv c0" "bv c0 < 0xF0"
    | (four) "0xF0 \<le> bv c0" "bv c0 \<le> 0xF4" by linarith
  then show ?thesis
  proof cases
    case a
    then show ?thesis by (simp add: s DecodeRune_ascii)
  next
    case x
    then show ?thesis by (simp add: s DecodeRune_bad_lead)
  next
    case two
    then show ?thesis by (simp add: s DecodeRune_two split: list.splits)
  next
    case three
    then show ?thesis by (simp add: s DecodeRune_three split: list.splits)
  next
    case four
    then show ?thesis by (simp add: s DecodeRune_four split: list.splits)
  qed
qed

lemma wf_enc_start: "wf_enc e r \<Longrightarrow> e \<noteq> [] \<and> RuneStart (hd e) \<and> length e \<le> 4"
  by (induction e r rule: wf_enc.induct) (auto simp: RuneStart_def)

lemma DecodeRune_size: "s \<noteq> [] \<Longrightarrow> 1 \<le> snd (DecodeRune s) \<and> snd (DecodeRune s) \<le> length s"
  using DecodeRune_cases [of s] wf_enc_start [of "take (snd (DecodeRune s)) s" "fst (DecodeRune s)"]
  by (cases s) (auto simp: Suc_le_eq)

lemma not_IsSpace_RuneError: "\<not> IsSpace RuneError"
  by (simp add: IsSpace_def RuneError_def)

lemma DecodeRune_space_wf:
  "IsSpace (fst (DecodeRune s)) \<Longrightarrow>
     s \<noteq> [] \<and> wf_enc (take (snd (DecodeRune s)) s) (fst (DecodeRune s)) \<and> snd (DecodeRune s) \<le> length s"
  using DecodeRune_cases [of s] by (cases "s = []") (auto simp: not_IsSpace_RuneError)

lemma DecodeRune_space_stable:
  assumes "IsSpace (fst (DecodeRune s))"
  shows "DecodeRune (take (snd (DecodeRune s)) s @ t) = DecodeRune s"
  using DecodeRune_wf [OF DecodeRune_space_wf [OF assms, THEN conjunct2, THEN conjunct1], of t]
    DecodeRune_space_wf [OF assms] by (simp add: prod_eq_iff)

lemma DecodeRune_alone:
  "0x80 \<le> bv c \<Longrightarrow> rest = [] \<or> RuneStart (hd rest) \<Longrightarrow> DecodeRune (c # rest) = (RuneError, 1)"
proof -
  assume c: "0x80 \<le> bv c" and r: "rest = [] \<or> RuneStart (hd rest)"
  consider (x) "bv c < 0xC2 \<or> 0xF4 < bv c"
    | (two) "0xC2 \<le> bv c" "bv c < 0xE0" | (three) "0xE0 \<le> bv c" "bv c < 0xF0"
    | (four) "0xF0 \<le> bv c" "bv c \<le> 0xF4" by linarith
  then show ?thesis
  proof cases
    case x
    with c show ?thesis by (simp add: DecodeRune_bad_lead)
  next
    case two
    with r show ?thesis by (auto simp: DecodeRune_two RuneStart_def split: list.splits)
  next
    case three
    with r show ?thesis by (auto simp: DecodeRune_three RuneStart_def split: list.splits)
  next
    case four
    with r show ?thesis by (auto simp: DecodeRune_four RuneStart_def split: list.splits)
  qed
qed

text \<open>
  \<open>strings.TrimLeftFunc\<close> and \<open>strings.TrimRightFunc\<close> with the predicate
  \<open>unicode.IsSpace\<close>, as \<open>TrimSpace\<close> calls them.  \<open>indexFunc s i\<close> is the library's
  \<open>indexFunc(s, unicode.IsSpace, false)\<close> on the rest \<open>s\<close> of the string from position
  \<open>i\<close> on: the position of the first rune that is not white space, \<open>None\<close> for -1.
  \<open>lastIndexFunc\<close> is its counterpart from the end, on \<open>s[0:i]\<close>.  \<open>asciiSpace\<close> is
  the table of the ASCII fast path of \<open>TrimSpace\<close>.
\<close>

definition asciiSpace :: "char \<Rightarrow> bool" where
  "asciiSpace c = (bv c \<in> {0x09, 0x0A, 0x0B, 0x0C, 0x0D, 0x20})"

function indexFunc :: "string \<Rightarrow> nat \<Rightarrow> nat option" where
  "indexFunc s i =
     (if s = [] then None
      else (case DecodeRune s of (r, n) \<Rightarrow>
              if \<not> IsSpace r then Some i else indexFunc (drop n s) (i + n)))"
  by pat_completeness auto
termination
  apply (relation "measure (\<lambda>(s, i). length s)")
   apply simp
  subgoal for s x y
    using DecodeRune_size [of s] by (cases "DecodeRune s") auto
  done

definition TrimLeftFunc :: "string \<Rightarrow> string" where
  "TrimLeftFunc s = (case indexFunc s 0 of None \<Rightarrow> [] | Some i \<Rightarrow> drop i s)"


lemma drop_last_one: "s \<noteq> [] \<Longrightarrow> drop (length s - Suc 0) s = [last s]"
  by (cases s rule: rev_cases) auto

lemma DecodeLastRune_ascii:
  "s \<noteq> [] \<Longrightarrow> bv (last s) < 0x80 \<Longrightarrow> DecodeLastRune s = (bv (last s), 1)"
  by (simp add: DecodeLastRune_def last_conv_nth)


lemma DecodeLastRune_sound:
  assumes "s \<noteq> []"
  shows "1 \<le> snd (DecodeLastRune s) \<and> snd (DecodeLastRune s) \<le> length s \<and>
         (DecodeLastRune s = (RuneError, 1) \<and> 0x80 \<le> bv (last s) \<or>
          wf_enc (drop (length s - snd (DecodeLastRune s)) s) (fst (DecodeLastRune s)))"
proof (cases "bv (last s) < 0x80")
  case True
  with assms show ?thesis
    by (simp add: DecodeLastRune_ascii drop_last_one Suc_le_eq)
next
  case False
  define start where "start =
               (if 2 \<le> length s \<and> RuneStart (s ! (length s - 2)) then length s - 2
                else if 3 \<le> length s \<and> RuneStart (s ! (length s - 3)) then length s - 3
                else if 4 \<le> length s \<and> RuneStart (s ! (length s - 4)) then length s - 4
                else length s - 5)"
  have lt: "start < length s" using assms by (simp add: start_def)
  then have ne: "drop start s \<noteq> []" by simp
  obtain r n where d: "DecodeRune (drop start s) = (r, n)" by (cases "DecodeRune (drop start s)")
  have eq: "DecodeLastRune s = (if start + n \<noteq> length s then (RuneError, 1) else (r, n))"
    using False assms d by (simp add: DecodeLastRune_def last_conv_nth start_def [symmetric])
  have n1: "1 \<le> n" using DecodeRune_size [OF ne] d by simp
  show ?thesis
  proof (cases "start + n = length s")
    case True
    then have st: "length s - n = start" by simp
    from DecodeRune_cases [OF ne] d
    have "(r, n) = (RuneError, 1) \<or> wf_enc (drop start s) r" using True by auto
    then show ?thesis using eq True st False n1 by auto
  next
    case False
    with eq assms \<open>\<not> bv (last s) < 0x80\<close> show ?thesis by (simp add: Suc_le_eq)
  qed
qed


function lastIndexFunc :: "string \<Rightarrow> nat option" where
  "lastIndexFunc s =
     (if s = [] then None
      else (case DecodeLastRune s of (r, n) \<Rightarrow>
              if \<not> IsSpace r then Some (length s - n) else lastIndexFunc (take (length s - n) s)))"
  by pat_completeness auto
termination
  apply (relation "measure length")
   apply simp
  subgoal for s x y
    using DecodeLastRune_sound [of s] by (cases "DecodeLastRune s") auto
  done

definition TrimRightFunc :: "string \<Rightarrow> string" where
  "TrimRightFunc s =
     (case lastIndexFunc s of
        None \<Rightarrow> []
      | Some i \<Rightarrow>
          if 0x80 \<le> bv (s ! i) then take (i + snd (DecodeRune (drop i s))) s else take (i + 1) s)"

definition TrimFunc :: "string \<Rightarrow> string" where
  "TrimFunc s = TrimRightFunc (TrimLeftFunc s)"

text \<open>
  \<open>strings.TrimSpace\<close>: \<open>u\<close> is \<open>s[start:]\<close> after the first loop, which stops at the
  first byte that is not an ASCII space and hands over to \<open>TrimFunc\<close> when that byte is
  not ASCII; \<open>v\<close> is \<open>s[start:stop]\<close> after the second loop, which does the same from
  the end with \<open>TrimRightFunc\<close>.
\<close>

definition TrimSpace :: "string \<Rightarrow> string" where
  "TrimSpace s =
     (let u = dropWhile asciiSpace s in
      if u \<noteq> [] \<and> 0x80 \<le> bv (hd u) then TrimFunc u
      else
        (let v = rev (dropWhile asciiSpace (rev u)) in
         if v \<noteq> [] \<and> 0x80 \<le> bv (last v) then TrimRightFunc v else v))"

declare indexFunc.simps [simp del] lastIndexFunc.simps [simp del]

subsection \<open>Whitespace\<close>

text \<open>
  For the statements about blank strings and first non-space characters: \<open>skip_space s\<close>
  is \<open>s\<close> from its first character that is not white space on, and \<open>only_space s\<close>
  says that every character of \<open>s\<close> is white space.  Characters are the runes that
  \<open>DecodeRune\<close> reads from left to right, white space is \<open>unicode.IsSpace\<close>.
\<close>

function skip_space :: "string \<Rightarrow> string" where
  "skip_space s =
     (if s = [] then []
      else (case DecodeRune s of (r, n) \<Rightarrow> if IsSpace r then skip_space (drop n s) else s))"
  by pat_completeness auto
termination
  apply (relation "measure length")
   apply simp
  subgoal for s x y
    using DecodeRune_size [of s] by (cases "DecodeRune s") auto
  done

function only_space :: "string \<Rightarrow> bool" where
  "only_space s =
     (if s = [] then True
      else (case DecodeRune s of (r, n) \<Rightarrow> IsSpace r \<and> only_space (drop n s)))"
  by pat_completeness auto
termination
  apply (relation "measure length")
   apply simp
  subgoal for s x y
    using DecodeRune_size [of s] by (cases "DecodeRune s") auto
  done

declare skip_space.simps [simp del] only_space.simps [simp del]

subsection \<open>strings.HasPrefix, strings.TrimPrefix\<close>

definition HasPrefix :: "string \<Rightarrow> string \<Rightarrow> bool" where
  "HasPrefix s pre = (length pre \<le> length s \<and> take (length pre) s = pre)"

definition TrimPrefix :: "string \<Rightarrow> string \<Rightarrow> string" where
  "TrimPrefix s pre = (if HasPrefix s pre then drop (length pre) s else s)"

subsection \<open>net.ParseMAC\<close>

text \<open>
  \<open>xtoi\<close> reads hexadecimal digits and returns the number, the count of bytes read and
  success; \<open>xtoi2\<close> reads two digits and checks that the byte after them, when there is
  one, is \<open>e\<close>.  \<open>ParseMAC\<close> accepts 6, 8 or 20 bytes written as pairs joined by colons
  or by hyphens, or as groups of four digits joined by dots.
\<close>

definition hexval :: "char \<Rightarrow> nat option" where
  "hexval c =
     (if bv CHR ''0'' \<le> bv c \<and> bv c \<le> bv CHR ''9'' then Some (bv c - bv CHR ''0'')
      else if bv CHR ''a'' \<le> bv c \<and> bv c \<le> bv CHR ''f'' then Some (bv c - bv CHR ''a'' + 10)
      else if bv CHR ''A'' \<le> bv c \<and> bv c \<le> bv CHR ''F'' then Some (bv c - bv CHR ''A'' + 10)
      else None)"

definition big :: nat where
  "big = 0xFFFFFF"

fun xtoi_loop :: "string \<Rightarrow> nat \<Rightarrow> nat \<Rightarrow> nat \<times> nat \<times> bool" where
  "xtoi_loop [] n i = (if i = 0 then (0, i, False) else (n, i, True))"
| "xtoi_loop (c # cs) n i =
     (case hexval c of
        None \<Rightarrow> (if i = 0 then (0, i, False) else (n, i, True))
      | Some v \<Rightarrow>
          (if big \<le> n * 16 + v then (0, i, False) else xtoi_loop cs (n * 16 + v) (i + 1)))"

definition xtoi :: "string \<Rightarrow> nat \<times> nat \<times> bool" where
  "xtoi s = xtoi_loop s 0 0"

definition xtoi2 :: "string \<Rightarrow> char \<Rightarrow> byte \<times> bool" where
  "xtoi2 s e =
     (if 2 < length s \<and> s ! 2 \<noteq> e then (0, False)
      else (case xtoi (take 2 s) of (n, ei, ok) \<Rightarrow> (of_nat n, ok \<and> ei = 2)))"

text \<open>The two loops of \<open>ParseMAC\<close>, on the part of \<open>s\<close> from \<open>x\<close> on, \<open>k\<close> rounds to go.\<close>

fun colon_loop :: "string \<Rightarrow> char \<Rightarrow> nat \<Rightarrow> HardwareAddr option" where
  "colon_loop s e 0 = Some []"
| "colon_loop s e (Suc k) =
     (case xtoi2 s e of
        (v, False) \<Rightarrow> None
      | (v, True) \<Rightarrow> map_option (\<lambda>hw. v # hw) (colon_loop (drop 3 s) e k))"

fun dot_loop :: "string \<Rightarrow> char \<Rightarrow> nat \<Rightarrow> HardwareAddr option" where
  "dot_loop s e 0 = Some []"
| "dot_loop s e (Suc k) =
     (case xtoi2 (take 2 s) (CHR 0x00) of
        (v, False) \<Rightarrow> None
      | (v, True) \<Rightarrow>
          (case xtoi2 (drop 2 s) e of
             (v', False) \<Rightarrow> None
           | (v', True) \<Rightarrow> map_option (\<lambda>hw. v # v' # hw) (dot_loop (drop 5 s) e k)))"

definition ParseMAC :: "string \<Rightarrow> error + HardwareAddr" where
  "ParseMAC s =
     (if length s < 14 then Inl (AddrError s)
      else if s ! 2 = CHR '':'' \<or> s ! 2 = CHR ''-'' then
        (if (length s + 1) mod 3 \<noteq> 0 then Inl (AddrError s)
         else (let n = (length s + 1) div 3 in
           if n \<noteq> 6 \<and> n \<noteq> 8 \<and> n \<noteq> 20 then Inl (AddrError s)
           else (case colon_loop s (s ! 2) n of None \<Rightarrow> Inl (AddrError s) | Some hw \<Rightarrow> Inr hw)))
      else if s ! 4 = CHR ''.'' then
        (if (length s + 1) mod 5 \<noteq> 0 then Inl (AddrError s)
         else (let n = 2 * (length s + 1) div 5 in
           if n \<noteq> 6 \<and> n \<noteq> 8 \<and> n \<noteq> 20 then Inl (AddrError s)
           else (case dot_loop s (s ! 4) (n div 2) of None \<Rightarrow> Inl (AddrError s) | Some hw \<Rightarrow> Inr hw)))
      else Inl (AddrError s))"

subsection \<open>bufio.Scanner with the split function ScanLines\<close>

text \<open>
  The scanner reads from a \<open>bytes.Reader\<close>; its state is the input not yet consumed.
  One \<open>Scan\<close> yields the bytes before the next newline, without one trailing carriage
  return, and consumes them with the newline; input that does not end in a newline
  yields its last bytes as a line.  The scanner's buffer grows to \<open>MaxScanTokenSize\<close>
  and no further: a line of that many bytes or more before its newline stops the scanner
  with \<open>ErrTooLong\<close>.
\<close>

definition MaxScanTokenSize :: nat where
  "MaxScanTokenSize = 64 * 1024"

definition dropCR :: "string \<Rightarrow> string" where
  "dropCR data = (if data \<noteq> [] \<and> last data = CHR 0x0D then butlast data else data)"

datatype scan = Token string string | AtEOF | TooLong

definition Scan :: "string \<Rightarrow> scan" where
  "Scan r =
     (if r = [] then AtEOF
      else (let l = takeWhile (\<lambda>c. c \<noteq> CHR 0x0A) r in
            if MaxScanTokenSize \<le> length l then TooLong
            else Token (dropCR l) (drop (length l + 1) r)))"

lemma Scan_shorter: "Scan r = Token text r' \<Longrightarrow> length r' < length r"
  by (auto simp: Scan_def Let_def split: if_splits)

section \<open>The package macaddr\<close>

subsection \<open>Matcher (macaddr.go)\<close>

text \<open>
  \<open>macs map[[6]byte]struct{}\<close>: a map from keys to the unit value.  A key is the array
  that \<open>copy(key[:], mac)\<close> fills: the first six bytes of \<open>mac\<close>, the rest of a zeroed
  array where \<open>mac\<close> is shorter.  The map is taken as allocated, as \<open>NewMatcher\<close> and
  the tests build it.
\<close>

record Matcher =
  macs :: "byte list \<rightharpoonup> unit"

definition copy_key :: "HardwareAddr \<Rightarrow> byte list" where
  "copy_key mac = take 6 mac @ replicate (6 - length mac) 0"

definition NewMatcher :: Matcher where
  "NewMatcher = \<lparr>macs = Map.empty\<rparr>"

definition Matcher_Match :: "Matcher \<Rightarrow> HardwareAddr \<Rightarrow> bool" where
  "Matcher_Match m mac =
     (if length mac \<noteq> 6 then False
      else (let key = copy_key mac in macs m key \<noteq> None))"

definition Matcher_Len :: "Matcher \<Rightarrow> int" where
  "Matcher_Len m = int (card (dom (macs m)))"

definition Matcher_Close :: "Matcher \<Rightarrow> error option" where
  "Matcher_Close m = None"

definition Matcher_add :: "Matcher \<Rightarrow> HardwareAddr \<Rightarrow> Matcher" where
  "Matcher_add m mac = (let key = copy_key mac in m\<lparr>macs := (macs m)(key \<mapsto> ())\<rparr>)"

definition Matcher_Add :: "Matcher \<Rightarrow> string \<Rightarrow> Matcher \<times> error option" where
  "Matcher_Add m pattern =
     (case ParseMAC pattern of
        Inl err \<Rightarrow> (m, Some (InvalidMAC pattern err))
      | Inr hwAddr \<Rightarrow>
          if length hwAddr \<noteq> 6 then (m, Some (BadLength (length hwAddr)))
          else (Matcher_add m hwAddr, None))"

subsection \<open>Load, BatchLoad (load_helper.go)\<close>

text \<open>
  \<open>Load\<close>, \<open>BatchLoad\<close> and \<open>LoadFromTextReader\<close> take a \<open>LocalWriteableMatcher\<close>, an
  interface, and call nothing of it but \<open>Add\<close>: they are functions of the method \<open>Add\<close>
  of the matcher they are given.  They return the matcher after the call and the error.
\<close>

definition Load :: "('m \<Rightarrow> string \<Rightarrow> 'm \<times> error option) \<Rightarrow> 'm \<Rightarrow> string \<Rightarrow> 'm \<times> error option" where
  "Load Add m s =
     (let s = TrimSpace s in
      if length s = 0 then (m, None) else Add m s)"

fun BatchLoad ::
  "('m \<Rightarrow> string \<Rightarrow> 'm \<times> error option) \<Rightarrow> 'm \<Rightarrow> string list \<Rightarrow> 'm \<times> error option" where
  "BatchLoad Add m [] = (m, None)"
| "BatchLoad Add m (s # b) =
     (case Load Add m s of
        (m', Some err) \<Rightarrow> (m', Some (LoadFailed s err))
      | (m', None) \<Rightarrow> BatchLoad Add m' b)"

subsection \<open>LoadFromTextReader, ParseTextMacFile\<close>

text \<open>The loop of \<open>LoadFromTextReader\<close>: the matcher, the scanner's input, \<open>lineCounter\<close>.\<close>

function LoadFromTextReader_loop ::
  "('m \<Rightarrow> string \<Rightarrow> 'm \<times> error option) \<Rightarrow> 'm \<Rightarrow> string \<Rightarrow> nat \<Rightarrow> 'm \<times> error option" where
  "LoadFromTextReader_loop Add m r lineCounter =
     (case Scan r of
        AtEOF \<Rightarrow> (m, None)
      | TooLong \<Rightarrow> (m, Some ErrTooLong)
      | Token text r' \<Rightarrow>
          (let lineCounter = lineCounter + 1;
               s = TrimSpace text
           in if length s = 0 \<or> HasPrefix s ''#'' then LoadFromTextReader_loop Add m r' lineCounter
              else (case Load Add m s of
                      (m', Some err) \<Rightarrow> (m', Some (LineError lineCounter err))
                    | (m', None) \<Rightarrow> LoadFromTextReader_loop Add m' r' lineCounter)))"
  by pat_completeness auto
termination
  by (relation "measure (\<lambda>(Add, m, r, lineCounter). length r)") (auto dest: Scan_shorter)

declare LoadFromTextReader_loop.simps [simp del]

definition LoadFromTextReader ::
  "('m \<Rightarrow> string \<Rightarrow> 'm \<times> error option) \<Rightarrow> 'm \<Rightarrow> string \<Rightarrow> 'm \<times> error option" where
  "LoadFromTextReader Add m r = LoadFromTextReader_loop Add m r 0"

text \<open>\<open>ParseTextMacFile\<close> returns Go's pair of a \<open>*Matcher\<close> and an error.\<close>

definition ParseTextMacFile :: "string \<Rightarrow> Matcher option \<times> error option" where
  "ParseTextMacFile inp =
     (case LoadFromTextReader Matcher_Add NewMatcher inp of
        (m, Some err) \<Rightarrow> (None, Some err)
      | (m, None) \<Rightarrow> (Some m, None))"

subsection \<open>The text format, line by line\<close>

text \<open>
  For the statement about \<open>ParseTextMacFile\<close>, the words of the format.  The physical
  lines of a text are its pieces between newlines (\<open>raw_lines\<close>); text after the last
  newline is a line when it is not empty; one carriage return before the newline belongs
  to the line end (\<open>lines_of\<close>).  A line is skipped when it is blank or its first
  non-space character is \<open>#\<close>.  \<open>line_error\<close> is the error of \<open>Add\<close> on the trimmed
  line, \<open>line_addrs\<close> are the addresses of the lines that are not skipped.
  \<open>parse_lines\<close> goes through the lines with the number of the line at hand.
\<close>

function raw_lines :: "string \<Rightarrow> string list" where
  "raw_lines r =
     (if r = [] then []
      else (let l = takeWhile (\<lambda>c. c \<noteq> CHR 0x0A) r in l # raw_lines (drop (length l + 1) r)))"
  by pat_completeness auto
termination
  by (relation "measure length") auto

declare raw_lines.simps [simp del]

definition skipped :: "string \<Rightarrow> bool" where
  "skipped l = (only_space l \<or> hd (skip_space l) = CHR ''#'')"

fun parse_lines :: "Matcher \<Rightarrow> nat \<Rightarrow> string list \<Rightarrow> Matcher \<times> error option" where
  "parse_lines m n [] = (m, None)"
| "parse_lines m n (l # ls) =
     (if skipped l then parse_lines m (n + 1) ls
      else (case Matcher_Add m (TrimSpace l) of
              (m', Some err) \<Rightarrow> (m', Some (LineError n err))
            | (m', None) \<Rightarrow> parse_lines m' (n + 1) ls))"

definition lines_of :: "string \<Rightarrow> string list" where
  "lines_of inp = map dropCR (raw_lines inp)"

definition line_error :: "string \<Rightarrow> error option" where
  "line_error l = snd (Matcher_Add NewMatcher (TrimSpace l))"

definition malformed :: "string \<Rightarrow> bool" where
  "malformed l = (\<not> skipped l \<and> line_error l \<noteq> None)"

definition line_addrs :: "string list \<Rightarrow> HardwareAddr set" where
  "line_addrs ls = {hw. \<exists>l\<in>set ls. \<not> skipped l \<and> ParseMAC (TrimSpace l) = Inr hw}"

text \<open>
  The format as a property of one input: when no line is malformed the parse succeeds
  and the keys of the matcher are the addresses of the lines; when there is a malformed
  line, the parse fails with the error of the first one under its number, counted from 1
  over all lines.
\<close>

definition line_by_line :: "string \<Rightarrow> bool" where
  "line_by_line inp =
     (((\<forall>l\<in>set (lines_of inp). \<not> malformed l) \<longrightarrow>
         (\<exists>m. ParseTextMacFile inp = (Some m, None) \<and> dom (macs m) = line_addrs (lines_of inp))) \<and>
      (\<forall>pre l post e. lines_of inp = pre @ l # post \<and> (\<forall>x\<in>set pre. \<not> malformed x) \<and>
           \<not> skipped l \<and> line_error l = Some e \<longrightarrow>
         ParseTextMacFile inp = (None, Some (LineError (length pre + 1) e))))"

subsection \<open>The LocalMatcher interface (load_helper.go)\<close>

text \<open>
  A value of the interface \<open>LocalMatcher\<close> is the table of its three methods.  An
  implementation behind a pointer reads the state \<open>'w\<close> its pointer lives in, so every
  method takes that state; \<open>Close\<close> may change it.
\<close>

record 'w LocalMatcher =
  Match_of :: "'w \<Rightarrow> HardwareAddr \<Rightarrow> bool"
  Len_of :: "'w \<Rightarrow> int"
  Close_of :: "'w \<Rightarrow> 'w \<times> error option"

text \<open>A \<open>*Matcher\<close> that nobody mutates any more, as an interface value.\<close>

definition Matcher_iface :: "Matcher \<Rightarrow> 'w LocalMatcher" where
  "Matcher_iface m =
     \<lparr>Match_of = (\<lambda>w. Matcher_Match m), Len_of = (\<lambda>w. Matcher_Len m),
      Close_of = (\<lambda>w. (w, Matcher_Close m))\<rparr>"

subsection \<open>DynamicMatcher\<close>

text \<open>
  The fields \<open>parserFunc\<close> and \<open>m\<close> (named \<open>d_parserFunc\<close>, \<open>d_m\<close> here); \<open>m\<close> is an
  interface value and may be nil.  \<open>parserFunc\<close> returns Go's pair of a matcher and an
  error, each of which may be nil.  The lock \<open>l\<close> only orders concurrent accesses to
  \<open>m\<close>; the model is sequential and leaves it out.
\<close>

record 'w DynamicMatcher =
  d_parserFunc :: "string \<Rightarrow> 'w LocalMatcher option \<times> error option"
  d_m :: "'w LocalMatcher option"

definition NewDynamicMatcher ::
  "(string \<Rightarrow> 'w LocalMatcher option \<times> error option) \<Rightarrow> 'w DynamicMatcher" where
  "NewDynamicMatcher parserFunc = \<lparr>d_parserFunc = parserFunc, d_m = None\<rparr>"

definition DynamicMatcher_Match :: "'w DynamicMatcher \<Rightarrow> 'w \<Rightarrow> HardwareAddr \<Rightarrow> bool" where
  "DynamicMatcher_Match d w mac =
     (case d_m d of None \<Rightarrow> False | Some m \<Rightarrow> Match_of m w mac)"

definition DynamicMatcher_Len :: "'w DynamicMatcher \<Rightarrow> 'w \<Rightarrow> int" where
  "DynamicMatcher_Len d w = (case d_m d of None \<Rightarrow> 0 | Some m \<Rightarrow> Len_of m w)"

definition DynamicMatcher_Close :: "'w DynamicMatcher \<Rightarrow> 'w \<Rightarrow> 'w \<times> error option" where
  "DynamicMatcher_Close d w = (case d_m d of Some m \<Rightarrow> Close_of m w | None \<Rightarrow> (w, None))"

text \<open>\<open>Update\<close> returns the cell after the call and the error.\<close>

definition DynamicMatcher_Update ::
  "'w DynamicMatcher \<Rightarrow> string \<Rightarrow> 'w DynamicMatcher \<times> error option" where
  "DynamicMatcher_Update d b =
     (case d_parserFunc d b of
        (m, Some err) \<Rightarrow> (d, Some err)
      | (m, None) \<Rightarrow> (d\<lparr>d_m := m\<rparr>, None))"

subsection \<open>LocalMatcherGroup\<close>

text \<open>
  How a call ends: it returns a value, or it panics.  Nothing in the package recovers
  from a panic, so a panic in a callee ends the caller too.
\<close>

datatype 'r outcome = Return 'r | Panic

text \<open>
  The fields \<open>g\<close> and \<open>closer\<close> (named \<open>mg_g\<close>, \<open>mg_closer\<close> here).  A closer is a
  \<open>func()\<close>, any function of the caller's: it acts on the state and returns nothing, or
  it panics.  A call of a closer gives the state it leaves and how it ended.
\<close>

record 'w LocalMatcherGroup =
  mg_g :: "'w LocalMatcher list"
  mg_closer :: "('w \<Rightarrow> 'w \<times> unit outcome) list"

definition NewLocalMatcherGroup :: "'w LocalMatcherGroup" where
  "NewLocalMatcherGroup = \<lparr>mg_g = [], mg_closer = []\<rparr>"

text \<open>
  The loop of \<open>Close\<close> over the closers: a closer that panics ends the loop, and
  \<open>Close\<close> with it, in the state it leaves.  \<open>Close\<close> gives the state after the call and
  how it ended: the nil error it returns, or the panic.
\<close>

fun run_closers :: "('w \<Rightarrow> 'w \<times> unit outcome) list \<Rightarrow> 'w \<Rightarrow> 'w \<times> unit outcome" where
  "run_closers [] w = (w, Return ())"
| "run_closers (f # fs) w =
     (case f w of
        (w', Return u) \<Rightarrow> run_closers fs w'
      | (w', Panic) \<Rightarrow> (w', Panic))"

definition LocalMatcherGroup_Close ::
  "'w LocalMatcherGroup \<Rightarrow> 'w \<Rightarrow> 'w \<times> error option outcome" where
  "LocalMatcherGroup_Close mg w =
     (case run_closers (mg_closer mg) w of
        (w', Return u) \<Rightarrow> (w', Return None)
      | (w', Panic) \<Rightarrow> (w', Panic))"



fun len_loop :: "'w LocalMatcher list \<Rightarrow> 'w \<Rightarrow> int \<Rightarrow> int" where
  "len_loop [] w s = s"
| "len_loop (m # ms) w s = len_loop ms w (s + Len_of m w)"

definition LocalMatcherGroup_Len :: "'w LocalMatcherGroup \<Rightarrow> 'w \<Rightarrow> int" where
  "LocalMatcherGroup_Len mg w = len_loop (mg_g mg) w 0"

definition Append :: "'w LocalMatcherGroup \<Rightarrow> 'w LocalMatcher \<Rightarrow> 'w LocalMatcherGroup" where
  "Append mg nm = mg\<lparr>mg_g := mg_g mg @ [nm]\<rparr>"

definition AppendCloser ::
  "'w LocalMatcherGroup \<Rightarrow> ('w \<Rightarrow> 'w \<times> unit outcome) \<Rightarrow> 'w LocalMatcherGroup" where
  "AppendCloser mg f = mg\<lparr>mg_closer := mg_closer mg @ [f]\<rparr>"

subsection \<open>The data providers\<close>

text \<open>
  The store the provider glue works on.  \<open>cells\<close> holds the \<open>DynamicMatcher\<close> objects
  allocated so far; a pointer to one is its position in \<open>cells\<close>.  A snapshot held by a
  cell is a \<open>*Matcher\<close> that nothing mutates, so its interface value reads no state
  (state type \<open>unit\<close>).  \<open>providers\<close> is the table of the \<open>DataManager\<close>, from tag to
  provider.
\<close>

record DataProvider =
  dp_data :: string
  dp_listeners :: "nat list"

record world =
  cells :: "unit DynamicMatcher list"
  providers :: "string \<rightharpoonup> DataProvider"

text \<open>
  Modelled from the spec: the package \<open>data_provider\<close> is not among the sources.  Its
  three methods the glue calls are \<open>GetDataProvider\<close> (the provider registered under a
  tag, or nil), \<open>LoadAndAddListener\<close> (``registers and performs an initial load
  synchronously'': the listener's \<open>Update\<close> is called on the provider's current bytes
  and the listener is entered in the provider's listeners) and \<open>DeleteListener\<close>
  (``deregisters'').  The spec does not say whether a listener whose initial load fails
  stays registered; here it does not.  A provider is addressed by its tag, a listener by
  its pointer.
\<close>

definition GetDataProvider :: "world \<Rightarrow> string \<Rightarrow> DataProvider option" where
  "GetDataProvider w tag = providers w tag"

definition LoadAndAddListener :: "world \<Rightarrow> string \<Rightarrow> nat \<Rightarrow> world \<times> error option" where
  "LoadAndAddListener w tag l =
     (case providers w tag of
        None \<Rightarrow> (w, None)
      | Some p \<Rightarrow>
          (case DynamicMatcher_Update (cells w ! l) (dp_data p) of
             (d, Some err) \<Rightarrow> (w\<lparr>cells := (cells w)[l := d]\<rparr>, Some err)
           | (d, None) \<Rightarrow>
               (w\<lparr>cells := (cells w)[l := d],
                  providers := (providers w)(tag \<mapsto> p\<lparr>dp_listeners := dp_listeners p @ [l]\<rparr>)\<rparr>,
                None)))"

definition DeleteListener :: "world \<Rightarrow> string \<Rightarrow> nat \<Rightarrow> world" where
  "DeleteListener w tag l =
     (case providers w tag of
        None \<Rightarrow> w
      | Some p \<Rightarrow>
          w\<lparr>providers := (providers w)(tag \<mapsto> p\<lparr>dp_listeners := removeAll l (dp_listeners p)\<rparr>)\<rparr>)"

subsection \<open>BatchLoadMacProvider\<close>

text \<open>A \<open>*DynamicMatcher\<close> as an interface value: its methods read the cell in the store.\<close>

definition cell_iface :: "nat \<Rightarrow> world LocalMatcher" where
  "cell_iface l =
     \<lparr>Match_of = (\<lambda>w mac. l < length (cells w) \<and> DynamicMatcher_Match (cells w ! l) () mac),
      Len_of = (\<lambda>w. if l < length (cells w) then DynamicMatcher_Len (cells w ! l) () else 0),
      Close_of = (\<lambda>w. (w, if l < length (cells w) then snd (DynamicMatcher_Close (cells w ! l) ())
                           else None))\<rparr>"

definition parseFunc :: "string \<Rightarrow> unit LocalMatcher option \<times> error option" where
  "parseFunc b = (case ParseTextMacFile b of (m, err) \<Rightarrow> (map_option Matcher_iface m, err))"

text \<open>
  The loop over the descriptors: what is left of \<open>e\<close>, the group, \<open>staticMatcher\<close> and
  the store.  \<open>mg.g[0]\<close> is the pointer \<open>staticMatcher\<close>, so the group returned sees
  every literal the loop loads after \<open>mg.Append(staticMatcher)\<close>; the model keeps the
  matcher beside the group and puts it at the head of \<open>g\<close> when the loop is over.  The
  result is the store and Go's pair of a group and an error.
\<close>

fun BatchLoadMacProvider_loop ::
  "string list \<Rightarrow> world LocalMatcherGroup \<Rightarrow> Matcher \<Rightarrow> world \<Rightarrow>
     world \<times> (world LocalMatcherGroup \<times> Matcher) option \<times> error option" where
  "BatchLoadMacProvider_loop [] mg staticMatcher w = (w, Some (mg, staticMatcher), None)"
| "BatchLoadMacProvider_loop (s # e) mg staticMatcher w =
     (if HasPrefix s ''provider:'' then
        (let providerTag = TrimPrefix s ''provider:'' in
         case GetDataProvider w providerTag of
           None \<Rightarrow> (w, None, Some (ProviderNotFound providerTag))
         | Some provider \<Rightarrow>
             (let dmMatcher = length (cells w);
                  w1 = w\<lparr>cells := cells w @ [NewDynamicMatcher parseFunc]\<rparr>
              in case LoadAndAddListener w1 providerTag dmMatcher of
                   (w2, Some err) \<Rightarrow> (w2, None, Some (ProviderLoadFailed providerTag err))
                 | (w2, None) \<Rightarrow>
                     BatchLoadMacProvider_loop e
                       (AppendCloser (Append mg (cell_iface dmMatcher))
                          (\<lambda>w. (DeleteListener w providerTag dmMatcher, Return ())))
                       staticMatcher w2))
      else
        (case Load Matcher_Add staticMatcher s of
           (m', Some err) \<Rightarrow> (w, None, Some (LoadFailed s err))
         | (m', None) \<Rightarrow> BatchLoadMacProvider_loop e mg m' w))"

definition BatchLoadMacProvider ::
  "string list \<Rightarrow> world \<Rightarrow> world \<times> world LocalMatcherGroup option \<times> error option" where
  "BatchLoadMacProvider e w =
     (case BatchLoadMacProvider_loop e NewLocalMatcherGroup NewMatcher w of
        (w', None, err) \<Rightarrow> (w', None, err)
      | (w', Some (mg, staticMatcher), err) \<Rightarrow>
          (w', Some (mg\<lparr>mg_g := Matcher_iface staticMatcher # mg_g mg\<rparr>), err))"

text \<open>
  A data source calls \<open>Update\<close> on a registered cell at every change of its data and
  goes on whatever the call returns: a sequence of \<open>Update\<close> calls on one cell.
\<close>

fun Updates :: "'w DynamicMatcher \<Rightarrow> string list \<Rightarrow> 'w DynamicMatcher" where
  "Updates d [] = d"
| "Updates d (b # bs) = Updates (fst (DynamicMatcher_Update d b)) bs"

text \<open>
  Instrumentation for statements about which closers run: the closers \<open>fs\<close>, each one
  also writing its position in \<open>fs\<close> at the end of a call log carried beside the state
  when it is called, however it ends.  \<open>invoked fs w\<close> is the log of one \<open>Close\<close> of a
  group with the closers \<open>fs\<close>, from the state \<open>w\<close>: the closers called, in the order
  of the calls.
\<close>

definition traced ::
  "('w \<Rightarrow> 'w \<times> unit outcome) list \<Rightarrow> (nat list \<times> 'w \<Rightarrow> (nat list \<times> 'w) \<times> unit outcome) list" where
  "traced fs =
     map (\<lambda>i. \<lambda>(tr, s). case (fs ! i) s of (s', r) \<Rightarrow> ((tr @ [i], s'), r)) [0..<length fs]"

definition invoked :: "('w \<Rightarrow> 'w \<times> unit outcome) list \<Rightarrow> 'w \<Rightarrow> nat list" where
  "invoked fs w =
     fst (fst (LocalMatcherGroup_Close \<lparr>mg_g = [], mg_closer = traced fs\<rparr> ([], w)))"

text \<open>Two closers for instances: one panics at once, one returns at once.\<close>

definition panics :: "'w \<Rightarrow> 'w \<times> unit outcome" where
  "panics w = (w, Panic)"

definition returns :: "'w \<Rightarrow> 'w \<times> unit outcome" where
  "returns w = (w, Return ())"

subsection \<open>Case variants of a literal\<close>

text \<open>
  For the statement that matching ignores the case of letters: two literals are case
  variants of each other when they are equal once every ASCII capital is lowered.
\<close>

definition toLower :: "char \<Rightarrow> char" where
  "toLower c = (if bv CHR ''A'' \<le> bv c \<and> bv c \<le> bv CHR ''Z'' then char_of (bv c + 32) else c)"

section \<open>strings.TrimSpace\<close>

text \<open>
  What \<open>TrimSpace\<close> returns has no white space at either end, so trimming twice is
  trimming once; it is empty exactly for strings of white space, and otherwise it starts
  at the first character of the string that is not white space.
\<close>


lemma indexFunc_Some:
  "indexFunc s i = Some j \<Longrightarrow>
     i \<le> j \<and> j - i < length s \<and> \<not> IsSpace (fst (DecodeRune (drop (j - i) s)))"
proof (induction s i rule: indexFunc.induct)
  case (1 s i)
  show ?case
  proof (cases "s = []")
    case True
    with "1.prems" show ?thesis by (simp add: indexFunc.simps)
  next
    case False
    obtain r n where d: "DecodeRune s = (r, n)" by (cases "DecodeRune s")
    show ?thesis
    proof (cases "IsSpace r")
      case True
      with False d "1.prems" have rec: "indexFunc (drop n s) (i + n) = Some j"
        by (simp add: indexFunc.simps [of s])
      from "1.IH" [OF False d [symmetric] _ rec] True
      have ih: "i + n \<le> j \<and> j - (i + n) < length (drop n s) \<and>
            \<not> IsSpace (fst (DecodeRune (drop (j - (i + n)) (drop n s))))" by blast
      then have e: "n + (j - (i + n)) = j - i" by arith
      have "j - i < length s" using ih by (simp del: drop_drop) arith
      moreover have "\<not> IsSpace (fst (DecodeRune (drop (j - i) s)))"
        using ih e by (metis drop_drop add.commute)
      ultimately show ?thesis using ih by simp
    next
      case False
      with \<open>s \<noteq> []\<close> d "1.prems" show ?thesis by (simp add: indexFunc.simps [of s])
    qed
  qed
qed

lemma TrimLeftFunc_nice:
  "TrimLeftFunc s = [] \<or> \<not> IsSpace (fst (DecodeRune (TrimLeftFunc s)))"
  using indexFunc_Some [of s 0] by (auto simp: TrimLeftFunc_def split: option.splits)

lemma TrimLeftFunc_id: "s \<noteq> [] \<Longrightarrow> \<not> IsSpace (fst (DecodeRune s)) \<Longrightarrow> TrimLeftFunc s = s"
  by (cases "DecodeRune s") (simp add: TrimLeftFunc_def indexFunc.simps [of s])

lemma DecodeLastRune_space:
  assumes "IsSpace (fst (DecodeLastRune s))"
  shows "s \<noteq> [] \<and> snd (DecodeLastRune s) \<le> length s \<and> 1 \<le> snd (DecodeLastRune s) \<and>
         wf_enc (drop (length s - snd (DecodeLastRune s)) s) (fst (DecodeLastRune s))"
proof -
  have ne: "s \<noteq> []" using assms by (auto simp: DecodeLastRune_def not_IsSpace_RuneError)
  from DecodeLastRune_sound [OF ne] assms show ?thesis
    by (auto simp: not_IsSpace_RuneError)
qed


lemma DecodeRune_prefix_space:
  assumes "IsSpace (fst (DecodeRune (take k s)))"
  shows "DecodeRune s = DecodeRune (take k s)"
proof -
  let ?t = "take k s" and ?m = "snd (DecodeRune (take k s))"
  have "take ?m ?t @ (drop ?m ?t @ drop k s) = (take ?m ?t @ drop ?m ?t) @ drop k s"
    by (simp only: append_assoc)
  also have "\<dots> = s" by (simp only: append_take_drop_id)
  finally show ?thesis using DecodeRune_space_stable [OF assms, of "drop ?m ?t @ drop k s"] by simp
qed

lemma lastIndexFunc_None: "lastIndexFunc s = None \<Longrightarrow> s = [] \<or> IsSpace (fst (DecodeRune s))"
proof (induction s rule: lastIndexFunc.induct)
  case (1 s)
  show ?case
  proof (cases "s = []")
    case True
    then show ?thesis by simp
  next
    case False
    obtain r n where d: "DecodeLastRune s = (r, n)" by (cases "DecodeLastRune s")
    with False "1.prems" have sp: "IsSpace r" and rec: "lastIndexFunc (take (length s - n) s) = None"
      by (auto simp: lastIndexFunc.simps [of s] split: if_splits)
    from DecodeLastRune_space [of s] d sp
    have wf: "wf_enc (drop (length s - n) s) r" and n: "n \<le> length s" by auto
    from "1.IH" [OF False d [symmetric] _ rec] sp
    have "take (length s - n) s = [] \<or> IsSpace (fst (DecodeRune (take (length s - n) s)))" by blast
    then show ?thesis
    proof
      assume "take (length s - n) s = []"
      with False have "length s - n = 0" by simp
      with wf have "wf_enc s r" by simp
      from DecodeRune_wf [OF this, of "[]"] sp show ?thesis by simp
    next
      assume "IsSpace (fst (DecodeRune (take (length s - n) s)))"
      then show ?thesis using DecodeRune_prefix_space by metis
    qed
  qed
qed

lemma lastIndexFunc_Some:
  "lastIndexFunc s = Some i \<Longrightarrow>
     \<exists>e. 0 < e \<and> e \<le> length s \<and> \<not> IsSpace (fst (DecodeLastRune (take e s))) \<and>
         i = e - snd (DecodeLastRune (take e s)) \<and> (e = length s \<or> RuneStart (s ! e))"
proof (induction s rule: lastIndexFunc.induct)
  case (1 s)
  show ?case
  proof (cases "s = []")
    case True
    with "1.prems" show ?thesis by (simp add: lastIndexFunc.simps)
  next
    case False
    obtain r n where d: "DecodeLastRune s = (r, n)" by (cases "DecodeLastRune s")
    show ?thesis
    proof (cases "IsSpace r")
      case False
      with \<open>s \<noteq> []\<close> d "1.prems" have "i = length s - n" by (simp add: lastIndexFunc.simps [of s])
      with False d \<open>s \<noteq> []\<close> show ?thesis by (intro exI [of _ "length s"]) simp
    next
      case True
      with False d "1.prems" have rec: "lastIndexFunc (take (length s - n) s) = Some i"
        by (simp add: lastIndexFunc.simps [of s])
      from DecodeLastRune_space [of s] d True
      have wf: "wf_enc (drop (length s - n) s) r" and n: "n \<le> length s" "1 \<le> n" by auto
      let ?k = "length s - n"
      from "1.IH" [OF False d [symmetric] _ rec] True
      obtain e where e: "0 < e" "e \<le> length (take ?k s)"
        "\<not> IsSpace (fst (DecodeLastRune (take e (take ?k s))))"
        "i = e - snd (DecodeLastRune (take e (take ?k s)))"
        "e = length (take ?k s) \<or> RuneStart (take ?k s ! e)" by blast
      have ek: "e \<le> ?k" using e(2) by simp
      then have tk: "take e (take ?k s) = take e s" by (simp add: min_def)
      have "RuneStart (s ! e)"
      proof (cases "e = ?k")
        case True
        have "hd (drop ?k s) = s ! ?k" using n False by (simp add: hd_drop_conv_nth)
        with wf_enc_start [OF wf] True show ?thesis by simp
      next
        case False
        with e(5) ek show ?thesis by simp
      qed
      with e ek tk n show ?thesis by (intro exI [of _ e]) simp
    qed
  qed
qed

lemma wf_enc_ascii: "wf_enc e r \<Longrightarrow> bv (hd e) < 0x80 \<Longrightarrow> length e = 1"
  by (induction e r rule: wf_enc.induct) auto

lemma rune_width:
  assumes "t \<noteq> []" and "rest = [] \<or> RuneStart (hd rest)"
  defines "i \<equiv> length t - snd (DecodeLastRune t)"
  shows "(if 0x80 \<le> bv ((t @ rest) ! i) then i + snd (DecodeRune (drop i (t @ rest))) else i + 1)
           = length t"
proof -
  let ?n = "snd (DecodeLastRune t)" and ?r = "fst (DecodeLastRune t)"
  from DecodeLastRune_sound [OF assms(1)]
  have n: "1 \<le> ?n" "?n \<le> length t"
    and c: "DecodeLastRune t = (RuneError, 1) \<and> 0x80 \<le> bv (last t) \<or> wf_enc (drop i t) ?r"
    by (auto simp: i_def)
  have i: "i < length t" "i + ?n = length t" using n by (auto simp: i_def)
  have nth: "(t @ rest) ! i = hd (drop i t)" using i by (simp add: nth_append hd_drop_conv_nth)
  have dr: "drop i (t @ rest) = drop i t @ rest" using i by simp
  from c show ?thesis
  proof
    assume a: "DecodeLastRune t = (RuneError, 1) \<and> 0x80 \<le> bv (last t)"
    then have i1: "i = length t - Suc 0" by (simp add: i_def)
    then have "drop i t = [last t]" using assms(1) by (simp add: drop_last_one)
    with a assms(2) nth dr i1 assms(1) show ?thesis by (simp add: DecodeRune_alone)
  next
    assume wf: "wf_enc (drop i t) ?r"
    have len: "length (drop i t) = ?n" using i by simp
    show ?thesis
    proof (cases "0x80 \<le> bv (hd (drop i t))")
      case True
      with DecodeRune_wf [OF wf, of rest] nth dr len i show ?thesis by simp
    next
      case False
      then have "length (drop i t) = 1" using wf_enc_ascii [OF wf] by simp
      with False nth len i show ?thesis by simp
    qed
  qed
qed


lemma TrimRightFunc_take:
  "\<exists>e\<le>length s. TrimRightFunc s = take e s \<and>
      (e = 0 \<and> lastIndexFunc s = None \<or>
       0 < e \<and> \<not> IsSpace (fst (DecodeLastRune (take e s))))"
proof (cases "lastIndexFunc s")
  case None
  then show ?thesis by (intro exI [of _ 0]) (simp add: TrimRightFunc_def)
next
  case (Some i)
  from lastIndexFunc_Some [OF Some]
  obtain e where e: "0 < e" "e \<le> length s" "\<not> IsSpace (fst (DecodeLastRune (take e s)))"
    "i = e - snd (DecodeLastRune (take e s))" "e = length s \<or> RuneStart (s ! e)" by blast
  have ne: "take e s \<noteq> []" using e by auto
  have rest: "drop e s = [] \<or> RuneStart (hd (drop e s))"
  proof (cases "e = length s")
    case True
    then show ?thesis by simp
  next
    case False
    with e(2,5) show ?thesis by (simp add: hd_drop_conv_nth)
  qed
  have len: "length (take e s) = e" using e(2) by simp
  from rune_width [OF ne rest] e(4)
  have "(if 0x80 \<le> bv (s ! i) then i + snd (DecodeRune (drop i s)) else i + 1) = e"
    by (simp only: append_take_drop_id len)
  then have "TrimRightFunc s = take e s" by (simp add: TrimRightFunc_def Some split: if_splits)
  with e show ?thesis by (intro exI [of _ e]) simp
qed

lemma TrimRightFunc_id:
  assumes "t \<noteq> []" "\<not> IsSpace (fst (DecodeLastRune t))"
  shows "TrimRightFunc t = t"
proof -
  have li: "lastIndexFunc t = Some (length t - snd (DecodeLastRune t))"
    using assms by (cases "DecodeLastRune t") (simp add: lastIndexFunc.simps [of t])
  define i where "i = length t - snd (DecodeLastRune t)"
  have w: "(if 0x80 \<le> bv (t ! i) then i + snd (DecodeRune (drop i t)) else i + 1) = length t"
    using rune_width [OF assms(1), of "[]"] by (simp add: i_def split: if_splits)
  have "TrimRightFunc t =
          take (if 0x80 \<le> bv (t ! i) then i + snd (DecodeRune (drop i t)) else i + 1) t"
    by (simp add: TrimRightFunc_def li i_def)
  then show ?thesis unfolding w by simp
qed

lemma TrimRightFunc_Nil: "TrimRightFunc [] = []"
  by (simp add: TrimRightFunc_def lastIndexFunc.simps [of "[]"])

lemma TrimRightFunc_nice:
  assumes "s \<noteq> []" "\<not> IsSpace (fst (DecodeRune s))"
  shows "TrimRightFunc s \<noteq> [] \<and> \<not> IsSpace (fst (DecodeRune (TrimRightFunc s))) \<and>
         \<not> IsSpace (fst (DecodeLastRune (TrimRightFunc s)))"
proof -
  from TrimRightFunc_take [of s]
  obtain e where e: "e \<le> length s" "TrimRightFunc s = take e s"
    "e = 0 \<and> lastIndexFunc s = None \<or> 0 < e \<and> \<not> IsSpace (fst (DecodeLastRune (take e s)))"
    by blast
  from e(3) assms lastIndexFunc_None [of s]
  have pos: "0 < e" and last: "\<not> IsSpace (fst (DecodeLastRune (take e s)))" by auto
  have "\<not> IsSpace (fst (DecodeRune (take e s)))"
    using DecodeRune_prefix_space [of e s] assms(2) by auto
  with pos last e assms(1) show ?thesis by simp
qed

definition trimmed :: "string \<Rightarrow> bool" where
  "trimmed t = (t = [] \<or> \<not> IsSpace (fst (DecodeRune t)) \<and> \<not> IsSpace (fst (DecodeLastRune t)))"

lemma asciiSpace_IsSpace: "bv c < 0x80 \<Longrightarrow> IsSpace (bv c) = asciiSpace c"
  by (auto simp: IsSpace_def asciiSpace_def)

lemma asciiSpace_ascii: "asciiSpace c \<Longrightarrow> bv c < 0x80"
  by (auto simp: asciiSpace_def)

lemma first_rune_ascii:
  "s \<noteq> [] \<Longrightarrow> bv (hd s) < 0x80 \<Longrightarrow> IsSpace (fst (DecodeRune s)) = asciiSpace (hd s)"
  by (cases s) (simp_all add: DecodeRune_ascii asciiSpace_IsSpace)

lemma last_rune_ascii:
  "s \<noteq> [] \<Longrightarrow> bv (last s) < 0x80 \<Longrightarrow> IsSpace (fst (DecodeLastRune s)) = asciiSpace (last s)"
  by (simp add: DecodeLastRune_ascii asciiSpace_IsSpace)

lemma TrimSpace_trimmed_id:
  assumes "trimmed t"
  shows "TrimSpace t = t"
proof (cases "t = []")
  case True
  then show ?thesis by (simp add: TrimSpace_def)
next
  case False
  with assms have f: "\<not> IsSpace (fst (DecodeRune t))" and l: "\<not> IsSpace (fst (DecodeLastRune t))"
    by (auto simp: trimmed_def)
  have hd: "\<not> asciiSpace (hd t)"
    using first_rune_ascii [OF False] asciiSpace_ascii [of "hd t"] f by auto
  have la: "\<not> asciiSpace (last t)"
    using last_rune_ascii [OF False] asciiSpace_ascii [of "last t"] l by auto
  have u: "dropWhile asciiSpace t = t" using hd False by (cases t) auto
  have v: "rev (dropWhile asciiSpace (rev t)) = t"
    using la False by (cases t rule: rev_cases) auto
  show ?thesis
    using False f l
    by (simp add: TrimSpace_def u v TrimFunc_def TrimLeftFunc_id TrimRightFunc_id)
qed

lemma TrimSpace_trimmed: "trimmed (TrimSpace s)"
proof -
  define u where "u = dropWhile asciiSpace s"
  define v where "v = rev (dropWhile asciiSpace (rev u))"
  have hdu: "u \<noteq> [] \<Longrightarrow> \<not> asciiSpace (hd u)"
    unfolding u_def by (metis hd_dropWhile)
  show ?thesis
  proof (cases "u \<noteq> [] \<and> 0x80 \<le> bv (hd u)")
    case True
    then have t: "TrimSpace s = TrimRightFunc (TrimLeftFunc u)"
      by (simp add: TrimSpace_def u_def [symmetric] TrimFunc_def)
    show ?thesis
    proof (cases "TrimLeftFunc u = []")
      case True
      then show ?thesis by (simp add: t TrimRightFunc_Nil trimmed_def)
    next
      case False
      with TrimLeftFunc_nice [of u] have "\<not> IsSpace (fst (DecodeRune (TrimLeftFunc u)))" by simp
      from TrimRightFunc_nice [OF False this] show ?thesis by (simp add: t trimmed_def)
    qed
  next
    case False
    have vl: "v \<noteq> [] \<Longrightarrow> \<not> asciiSpace (last v)"
      unfolding v_def by (metis hd_dropWhile last_rev rev_is_Nil_conv)
    have pre: "\<exists>w. u = v @ w"
      unfolding v_def by (metis append_Nil2 rev_append rev_rev_ident takeWhile_dropWhile_id)
    have vf: "v \<noteq> [] \<Longrightarrow> \<not> IsSpace (fst (DecodeRune v))"
    proof -
      assume ne: "v \<noteq> []"
      with pre have "u \<noteq> []" "hd v = hd u" by auto
      with False hdu have "bv (hd v) < 0x80" "\<not> asciiSpace (hd v)" by auto
      with first_rune_ascii [OF ne] show ?thesis by simp
    qed
    show ?thesis
    proof (cases "v \<noteq> [] \<and> 0x80 \<le> bv (last v)")
      case True
      with False have t: "TrimSpace s = TrimRightFunc v"
        by (auto simp add: TrimSpace_def u_def [symmetric] v_def [symmetric] Let_def)
      from True TrimRightFunc_nice [OF _ vf] show ?thesis by (simp add: t trimmed_def)
    next
      case F2: False
      with False have t: "TrimSpace s = v"
        by (auto simp add: TrimSpace_def u_def [symmetric] v_def [symmetric] Let_def)
      show ?thesis
      proof (cases "v = []")
        case True
        then show ?thesis by (simp add: t trimmed_def)
      next
        case ne: False
        with F2 have "bv (last v) < 0x80" by simp
        with last_rune_ascii [OF ne] vl ne vf show ?thesis by (simp add: t trimmed_def)
      qed
    qed
  qed
qed

lemma TrimSpace_idem: "TrimSpace (TrimSpace s) = TrimSpace s"
  by (rule TrimSpace_trimmed_id [OF TrimSpace_trimmed])


lemma only_space_skip: "only_space s = (skip_space s = [])"
proof (induction s rule: skip_space.induct)
  case (1 s)
  show ?case
  proof (cases "s = []")
    case True
    then show ?thesis by (simp add: skip_space.simps only_space.simps)
  next
    case False
    obtain r n where d: "DecodeRune s = (r, n)" by (cases "DecodeRune s")
    show ?thesis
    proof (cases "IsSpace r")
      case True
      with "1.IH" [OF False d [symmetric]] False d show ?thesis
        by (simp add: skip_space.simps [of s] only_space.simps [of s])
    next
      case F: False
      with False d show ?thesis
        by (simp add: skip_space.simps [of s] only_space.simps [of s])
    qed
  qed
qed

lemma indexFunc_skip:
  "(indexFunc s i = None \<longrightarrow> skip_space s = []) \<and>
   (\<forall>j. indexFunc s i = Some j \<longrightarrow> skip_space s = drop (j - i) s)"
proof (induction s i rule: indexFunc.induct)
  case (1 s i)
  show ?case
  proof (cases "s = []")
    case True
    then show ?thesis by (simp add: skip_space.simps indexFunc.simps)
  next
    case False
    obtain r n where d: "DecodeRune s = (r, n)" by (cases "DecodeRune s")
    show ?thesis
    proof (cases "IsSpace r")
      case True
      have sk: "skip_space s = skip_space (drop n s)"
        using False d True by (simp add: skip_space.simps [of s])
      have ix: "indexFunc s i = indexFunc (drop n s) (i + n)"
        using False d True by (simp add: indexFunc.simps [of s])
      from "1.IH" [OF False d [symmetric]] True
      have ih: "(indexFunc (drop n s) (i + n) = None \<longrightarrow> skip_space (drop n s) = []) \<and>
         (\<forall>j. indexFunc (drop n s) (i + n) = Some j \<longrightarrow> skip_space (drop n s) = drop (j - (i + n)) (drop n s))"
        by blast
      show ?thesis
      proof (intro conjI allI impI)
        assume "indexFunc s i = None"
        with ih ix sk show "skip_space s = []" by simp
      next
        fix j assume j: "indexFunc s i = Some j"
        with ix have j': "indexFunc (drop n s) (i + n) = Some j" by simp
        from indexFunc_Some [OF j'] have "i + n \<le> j" by simp
        then have "n + (j - (i + n)) = j - i" by arith
        with ih j' sk show "skip_space s = drop (j - i) s"
          by (metis drop_drop add.commute)
      qed
    next
      case F: False
      with False d show ?thesis by (simp add: skip_space.simps [of s] indexFunc.simps [of s])
    qed
  qed
qed

lemma TrimLeftFunc_skip: "TrimLeftFunc s = skip_space s"
  using indexFunc_skip [of s 0] by (auto simp: TrimLeftFunc_def split: option.splits)

lemma skip_space_nice: "skip_space s = [] \<or> \<not> IsSpace (fst (DecodeRune (skip_space s)))"
  using TrimLeftFunc_nice [of s] by (simp add: TrimLeftFunc_skip)

lemma skip_space_id: "s \<noteq> [] \<Longrightarrow> \<not> IsSpace (fst (DecodeRune s)) \<Longrightarrow> skip_space s = s"
  using TrimLeftFunc_id [of s] by (simp add: TrimLeftFunc_skip)

lemma skip_space_asciiSpace: "asciiSpace c \<Longrightarrow> skip_space (c # s) = skip_space s"
  using asciiSpace_ascii [of c]
  by (simp add: skip_space.simps [of "c # s"] DecodeRune_ascii asciiSpace_IsSpace)

lemma skip_space_dropWhile: "skip_space (dropWhile asciiSpace s) = skip_space s"
  by (induction s) (simp_all add: skip_space_asciiSpace)

lemma skip_space_Nil: "skip_space [] = []"
  by (simp add: skip_space.simps)

lemma TrimSpace_skip:
  "\<exists>e. TrimSpace s = take e (skip_space s) \<and> (skip_space s \<noteq> [] \<longrightarrow> 0 < e)"
proof -
  define u where "u = dropWhile asciiSpace s"
  define v where "v = rev (dropWhile asciiSpace (rev u))"
  have su: "skip_space s = skip_space u" by (simp add: u_def skip_space_dropWhile)
  have hdu: "u \<noteq> [] \<Longrightarrow> \<not> asciiSpace (hd u)"
    unfolding u_def by (metis hd_dropWhile)
  have tr: "\<exists>e. TrimRightFunc x = take e x \<and> 0 < e"
    if "x \<noteq> []" "\<not> IsSpace (fst (DecodeRune x))" for x
  proof -
    from TrimRightFunc_take [of x] obtain e where e: "TrimRightFunc x = take e x" by blast
    from TrimRightFunc_nice [OF that] have "TrimRightFunc x \<noteq> []" by simp
    with e have "0 < e" by (cases e) auto
    with e show ?thesis by blast
  qed
  show ?thesis
  proof (cases "u \<noteq> [] \<and> 0x80 \<le> bv (hd u)")
    case True
    then have t: "TrimSpace s = TrimRightFunc (skip_space u)"
      by (simp add: TrimSpace_def u_def [symmetric] TrimFunc_def TrimLeftFunc_skip)
    show ?thesis
    proof (cases "skip_space u = []")
      case True
      then show ?thesis by (simp add: t su TrimRightFunc_Nil)
    next
      case False
      with skip_space_nice [of u] tr [of "skip_space u"] show ?thesis by (simp add: t su)
    qed
  next
    case False
    show ?thesis
    proof (cases "u = []")
      case True
      then show ?thesis by (simp add: TrimSpace_def u_def [symmetric] su skip_space_Nil)
    next
      case ne: False
      with False hdu have h: "bv (hd u) < 0x80" "\<not> asciiSpace (hd u)" by auto
      then have f: "\<not> IsSpace (fst (DecodeRune u))" using first_rune_ascii [OF ne] by simp
      then have sk: "skip_space u = u" using ne by (simp add: skip_space_id)
      obtain k where k: "v = take k u" "0 < k"
      proof -
        have "rev u \<noteq> []" using ne by simp
        obtain w where w: "u = v @ w"
          unfolding v_def by (metis append_Nil2 rev_append rev_rev_ident takeWhile_dropWhile_id)
        have "v \<noteq> []"
        proof
          assume "v = []"
          then have "dropWhile asciiSpace (rev u) = []" by (simp add: v_def)
          then have "\<forall>c\<in>set (rev u). asciiSpace c" by (simp add: dropWhile_eq_Nil_conv)
          then have "asciiSpace (hd u)" using ne by simp
          with h show False by simp
        qed
        with w have "v = take (length v) u" "0 < length v" by auto
        then show ?thesis using that by blast
      qed
      have vne: "v \<noteq> []" using k ne by auto
      have vf: "\<not> IsSpace (fst (DecodeRune v))"
      proof -
        have "hd v = hd u" using k ne by (cases u) (auto simp: take_Suc_conv_app_nth gr0_conv_Suc)
        with h first_rune_ascii [OF vne] show ?thesis by simp
      qed
      show ?thesis
      proof (cases "0x80 \<le> bv (last v)")
        case True
        with False vne have t: "TrimSpace s = TrimRightFunc v"
          by (auto simp add: TrimSpace_def u_def [symmetric] v_def [symmetric] Let_def)
        from tr [OF vne vf] obtain e where e: "TrimRightFunc v = take e v" "0 < e" by blast
        then have "TrimSpace s = take (min e k) u" by (simp add: t k min.commute)
        with e k show ?thesis by (intro exI [of _ "min e k"]) (simp add: su sk)
      next
        case F2: False
        with False have t: "TrimSpace s = v"
          by (auto simp add: TrimSpace_def u_def [symmetric] v_def [symmetric] Let_def)
        with k show ?thesis by (intro exI [of _ k]) (simp add: su sk)
      qed
    qed
  qed
qed

lemma TrimSpace_Nil_iff: "(TrimSpace s = []) = only_space s"
  using TrimSpace_skip [of s] by (auto simp: only_space_skip)

lemma TrimSpace_hd: "\<not> only_space s \<Longrightarrow> hd (TrimSpace s) = hd (skip_space s)"
  using TrimSpace_skip [of s] by (auto simp: only_space_skip)

section \<open>Matcher.Match\<close>

lemma copy_key_six: "length mac = 6 \<Longrightarrow> copy_key mac = mac"
  by (simp add: copy_key_def)

lemma length_copy_key: "length (copy_key mac) = 6"
  by (simp add: copy_key_def)

text \<open>
  C4.  For every matcher state, \<open>Match\<close> answers false on every input whose length is not
  six bytes, and on a six-byte input it answers whether exactly that value is a key of the
  map.  The result is a plain boolean: there is no error outcome.
\<close>

theorem Matcher_Match_fail_closed:
  "(length mac \<noteq> 6 \<longrightarrow> Matcher_Match m mac = False) \<and>
   (length mac = 6 \<longrightarrow> Matcher_Match m mac = (mac \<in> dom (macs m)))"
  by (auto simp: Matcher_Match_def copy_key_six)

theorem Matcher_Match_fail_closed_witness:
  "Matcher_Match (Matcher_add NewMatcher [0, 17, 34, 51, 68, 85]) [0, 17, 34, 51, 68] = False \<and>
   Matcher_Match (Matcher_add NewMatcher [0, 17, 34, 51, 68, 85]) [0, 17, 34, 51, 68, 85] = True \<and>
   Matcher_Match (Matcher_add NewMatcher [0, 17, 34, 51, 68, 85]) [102, 119, 136, 153, 170, 187] = False"
  using Matcher_Match_fail_closed [of "[0, 17, 34, 51, 68]" "Matcher_add NewMatcher [0, 17, 34, 51, 68, 85]"]
    Matcher_Match_fail_closed [of "[0, 17, 34, 51, 68, 85]" "Matcher_add NewMatcher [0, 17, 34, 51, 68, 85]"]
    Matcher_Match_fail_closed [of "[102, 119, 136, 153, 170, 187]" "Matcher_add NewMatcher [0, 17, 34, 51, 68, 85]"]
  by (simp add: Matcher_add_def NewMatcher_def copy_key_def)

section \<open>DynamicMatcher\<close>

lemma Update_failed:
  "snd (d_parserFunc d b) = Some err \<Longrightarrow> DynamicMatcher_Update d b = (d, Some err)"
  by (cases "d_parserFunc d b") (simp add: DynamicMatcher_Update_def)

lemma Updates_all_failed:
  "\<forall>b\<in>set bs. snd (d_parserFunc d b) \<noteq> None \<Longrightarrow> Updates d bs = d"
proof (induction bs arbitrary: d)
  case Nil
  then show ?case by simp
next
  case (Cons b bs)
  then obtain err where "snd (d_parserFunc d b) = Some err" by auto
  then have "fst (DynamicMatcher_Update d b) = d" by (simp add: Update_failed)
  with Cons show ?case by simp
qed

text \<open>
  C2.  When the parser function fails on \<open>b\<close>, \<open>Update b\<close> returns the parser's error and
  the cell is what it was, whatever snapshot it held: \<open>Match\<close> and \<open>Len\<close> answer after the
  call as they did before it.
\<close>

theorem DynamicMatcher_failed_Update_keeps_snapshot:
  assumes "snd (d_parserFunc d b) = Some err"
  shows "snd (DynamicMatcher_Update d b) = Some err \<and>
         fst (DynamicMatcher_Update d b) = d \<and>
         DynamicMatcher_Match (fst (DynamicMatcher_Update d b)) w mac = DynamicMatcher_Match d w mac \<and>
         DynamicMatcher_Len (fst (DynamicMatcher_Update d b)) w = DynamicMatcher_Len d w"
  using assms by (simp add: Update_failed)

text \<open>
  C5.  A cell made by \<open>NewDynamicMatcher\<close> on which every \<open>Update\<close> so far has failed
  matches nothing, has length 0 and closes with a nil error.
\<close>

theorem DynamicMatcher_never_updated:
  assumes "\<forall>b\<in>set bs. snd (parserFunc b) \<noteq> None"
  shows "DynamicMatcher_Match (Updates (NewDynamicMatcher parserFunc) bs) w mac = False \<and>
         DynamicMatcher_Len (Updates (NewDynamicMatcher parserFunc) bs) w = 0 \<and>
         DynamicMatcher_Close (Updates (NewDynamicMatcher parserFunc) bs) w = (w, None)"
proof -
  have "Updates (NewDynamicMatcher parserFunc) bs = NewDynamicMatcher parserFunc"
    using assms by (intro Updates_all_failed) (simp add: NewDynamicMatcher_def)
  then show ?thesis
    by (simp add: NewDynamicMatcher_def DynamicMatcher_Match_def DynamicMatcher_Len_def
        DynamicMatcher_Close_def)
qed

section \<open>LocalMatcherGroup\<close>



lemma run_closers_snoc:
  "run_closers (fs @ [f]) w =
     (case run_closers fs w of
        (w', Return u) \<Rightarrow> (case f w' of (w'', Return u) \<Rightarrow> (w'', Return ()) | (w'', Panic) \<Rightarrow> (w'', Panic))
      | (w', Panic) \<Rightarrow> (w', Panic))"
  by (induction fs arbitrary: w) (auto split: prod.splits outcome.splits)

lemma run_closers_return:
  "\<forall>f\<in>set fs. \<forall>s. snd (f s) = Return () \<Longrightarrow>
     run_closers fs w = (foldl (\<lambda>s f. fst (f s)) w fs, Return ())"
proof (induction fs arbitrary: w)
  case Nil
  then show ?case by simp
next
  case (Cons f fs)
  obtain w' r where fw: "f w = (w', r)" by (cases "f w")
  with Cons.prems have "r = Return ()" by (metis list.set_intros(1) snd_conv)
  with Cons fw show ?case by simp
qed

lemma traced_snoc:
  "traced (fs @ [f]) =
     traced fs @ [\<lambda>(tr, s). case f s of (s', r) \<Rightarrow> ((tr @ [length fs], s'), r)]"
  by (simp add: traced_def nth_append cong: map_cong)

lemma run_closers_traced:
  "\<forall>f\<in>set fs. \<forall>s. snd (f s) = Return () \<Longrightarrow>
     run_closers (traced fs) (tr, w) =
       ((tr @ [0..<length fs], foldl (\<lambda>s f. fst (f s)) w fs), Return ())"
proof (induction fs arbitrary: tr w rule: rev_induct)
  case Nil
  then show ?case by (simp add: traced_def)
next
  case (snoc f fs)
  then have ih: "run_closers (traced fs) (tr, w) =
       ((tr @ [0..<length fs], foldl (\<lambda>s f. fst (f s)) w fs), Return ())"
    by simp
  obtain s' r where fs: "f (foldl (\<lambda>s f. fst (f s)) w fs) = (s', r)"
    by (cases "f (foldl (\<lambda>s f. fst (f s)) w fs)")
  with snoc.prems have "r = Return ()" by (metis in_set_conv_decomp snd_conv)
  with fs show ?case
    unfolding traced_snoc run_closers_snoc ih by simp
qed

text \<open>
  C9 (amended).  For every group whose closers all return, \<open>Close\<close> applies the closers
  one after the other in the order of \<open>closer\<close>, each to the state the one before left,
  whatever that state is, and returns nil; the log of the calls is \<open>0, 1, ..., n - 1\<close>:
  every registered closer once, in registration order.  \<open>AppendCloser\<close> registers at the
  end of that order.
\<close>

theorem LocalMatcherGroup_Close_all_closers:
  assumes "\<forall>f\<in>set (mg_closer mg). \<forall>s. snd (f s) = Return ()"
  shows "LocalMatcherGroup_Close mg w = (foldl (\<lambda>s f. fst (f s)) w (mg_closer mg), Return None) \<and>
         invoked (mg_closer mg) w = [0..<length (mg_closer mg)] \<and>
         mg_closer (AppendCloser mg f) = mg_closer mg @ [f] \<and>
         ((\<forall>s. snd (f s) = Return ()) \<longrightarrow>
            LocalMatcherGroup_Close (AppendCloser mg f) w =
              (fst (f (fst (LocalMatcherGroup_Close mg w))), Return None))"
proof -
  have c: "LocalMatcherGroup_Close mg w = (foldl (\<lambda>s f. fst (f s)) w (mg_closer mg), Return None)"
    by (simp add: LocalMatcherGroup_Close_def run_closers_return [OF assms])
  have i: "invoked (mg_closer mg) w = [0..<length (mg_closer mg)]"
    by (simp add: invoked_def LocalMatcherGroup_Close_def run_closers_traced [OF assms])
  have a: "LocalMatcherGroup_Close (AppendCloser mg f) w =
              (fst (f (fst (LocalMatcherGroup_Close mg w))), Return None)"
    if "\<forall>s. snd (f s) = Return ()"
  proof -
    have "\<forall>g\<in>set (mg_closer mg @ [f]). \<forall>s. snd (g s) = Return ()" using assms that by auto
    from run_closers_return [OF this, of w]
    have "LocalMatcherGroup_Close (AppendCloser mg f) w =
            (fst (f (foldl (\<lambda>s f. fst (f s)) w (mg_closer mg))), Return None)"
      by (simp add: LocalMatcherGroup_Close_def AppendCloser_def)
    then show ?thesis unfolding c by simp
  qed
  from c i a show ?thesis by (simp add: AppendCloser_def)
qed

theorem LocalMatcherGroup_Close_all_closers_witness:
  "LocalMatcherGroup_Close
     \<lparr>mg_g = [], mg_closer = [\<lambda>s. (s @ [10], Return ()), \<lambda>s. (s @ [20], Return ())]\<rparr> ([] :: nat list)
     = ([10, 20], Return None) \<and>
   invoked [\<lambda>s. (s @ [10], Return ()), \<lambda>s. (s @ [20], Return ())] ([] :: nat list) = [0, 1] \<and>
   LocalMatcherGroup_Close
     (AppendCloser \<lparr>mg_g = [], mg_closer = [\<lambda>s. (s @ [10], Return ()), \<lambda>s. (s @ [20], Return ())]\<rparr>
        (\<lambda>s. (s @ [30], Return ()))) ([] :: nat list)
     = ([10, 20, 30], Return None)"
  using LocalMatcherGroup_Close_all_closers
    [of "\<lparr>mg_g = [], mg_closer = [\<lambda>s. (s @ [10], Return ()), \<lambda>s. (s @ [20], Return ())]\<rparr>"
        "[] :: nat list" "\<lambda>s. (s @ [30], Return ())"]
  by (simp add: upt_rec)

text \<open>
  C9 as stated, for every group, fails: \<open>Close\<close> does not recover, so when the first of
  two closers panics the second is not called.
\<close>

theorem LocalMatcherGroup_Close_panic_counterexample:
  "LocalMatcherGroup_Close \<lparr>mg_g = [], mg_closer = [panics, returns]\<rparr> () = ((), Panic) \<and>
   invoked [panics, returns] () = [0] \<and>
   invoked [panics, returns] () \<noteq> [0..<length [panics, returns :: unit \<Rightarrow> unit \<times> unit outcome]]"
  by (simp add: LocalMatcherGroup_Close_def invoked_def traced_def panics_def returns_def upt_rec)

section \<open>Evaluating net.ParseMAC\<close>

lemma hexval_simps:
  "hexval CHR ''0'' = Some 0" "hexval CHR ''1'' = Some 1" "hexval CHR ''2'' = Some 2"
  "hexval CHR ''3'' = Some 3" "hexval CHR ''4'' = Some 4" "hexval CHR ''5'' = Some 5"
  "hexval CHR ''6'' = Some 6" "hexval CHR ''7'' = Some 7" "hexval CHR ''8'' = Some 8"
  "hexval CHR ''9'' = Some 9" "hexval CHR ''a'' = Some 10" "hexval CHR ''b'' = Some 11"
  "hexval CHR ''c'' = Some 12" "hexval CHR ''d'' = Some 13" "hexval CHR ''e'' = Some 14"
  "hexval CHR ''f'' = Some 15" "hexval CHR ''A'' = Some 10" "hexval CHR ''B'' = Some 11"
  "hexval CHR ''C'' = Some 12" "hexval CHR ''D'' = Some 13" "hexval CHR ''E'' = Some 14"
  "hexval CHR ''F'' = Some 15"
  by (simp_all add: hexval_def bv_def)

lemma xtoi2_pair:
  assumes "hexval c1 = Some a" "hexval c2 = Some d" "rest = [] \<or> hd rest = e"
  shows "xtoi2 (c1 # c2 # rest) e = (of_nat (a * 16 + d), True)"
proof -
  have "a < 16" "d < 16" using assms(1,2) by (auto simp: hexval_def bv_def split: if_splits)
  then have "\<not> big \<le> a" "\<not> big \<le> a * 16 + d" by (simp_all add: big_def)
  with assms show ?thesis
    by (cases rest) (auto simp: xtoi2_def xtoi_def)
qed

lemma colon_loop_numeral:
  "colon_loop s e (numeral k) =
     (case xtoi2 s e of
        (v, False) \<Rightarrow> None
      | (v, True) \<Rightarrow> map_option (\<lambda>hw. v # hw) (colon_loop (drop 3 s) e (pred_numeral k)))"
  by (metis colon_loop.simps(2) numeral_eq_Suc)

lemma ParseMAC_colon:
  assumes "length s = 17" "s ! 2 = CHR '':'' \<or> s ! 2 = CHR ''-''"
  shows "ParseMAC s = (case colon_loop s (s ! 2) 6 of None \<Rightarrow> Inl (AddrError s) | Some hw \<Rightarrow> Inr hw)"
  using assms by (simp add: ParseMAC_def)

section \<open>Matcher.Add\<close>

text \<open>
  C7.  \<open>Add\<close> returns an error and leaves the matcher as it was when the literal does
  not parse and when it parses to an address that is not six bytes long; it stores the
  parsed address itself, unchanged, when it is six bytes long.  So a matcher whose keys
  are all six bytes long, as the empty matcher of \<open>NewMatcher\<close> is, stays one under
  \<open>Add\<close>.
\<close>

theorem Matcher_Add_six_bytes_only:
  "(ParseMAC pattern = Inl err \<longrightarrow> Matcher_Add m pattern = (m, Some (InvalidMAC pattern err))) \<and>
   (ParseMAC pattern = Inr hw \<and> length hw \<noteq> 6 \<longrightarrow>
      Matcher_Add m pattern = (m, Some (BadLength (length hw)))) \<and>
   (ParseMAC pattern = Inr hw \<and> length hw = 6 \<longrightarrow>
      Matcher_Add m pattern = (m\<lparr>macs := (macs m)(hw \<mapsto> ())\<rparr>, None)) \<and>
   dom (macs NewMatcher) = {} \<and>
   ((\<forall>k\<in>dom (macs m). length k = 6) \<longrightarrow>
      (\<forall>k\<in>dom (macs (fst (Matcher_Add m pattern))). length k = 6))"
  by (auto simp: Matcher_Add_def Matcher_add_def copy_key_six NewMatcher_def length_copy_key
      split: sum.splits)

lemma ParseMAC_eui64:
  "ParseMAC ''00:11:22:33:44:55:66:77'' = Inr [0, 17, 34, 51, 68, 85, 102, 119]"
  by (simp add: ParseMAC_def colon_loop_numeral xtoi2_pair hexval_simps)

lemma ParseMAC_short: "ParseMAC ''00:11:22:33:44'' = Inl (AddrError ''00:11:22:33:44'')"
  by (simp add: ParseMAC_def)

lemma ParseMAC_001122: "ParseMAC ''00:11:22:33:44:55'' = Inr [0, 17, 34, 51, 68, 85]"
  by (simp add: ParseMAC_colon colon_loop_numeral xtoi2_pair hexval_simps)

theorem Matcher_Add_six_bytes_only_witness:
  "Matcher_Add NewMatcher ''00:11:22:33:44'' =
     (NewMatcher, Some (InvalidMAC ''00:11:22:33:44'' (AddrError ''00:11:22:33:44''))) \<and>
   Matcher_Add NewMatcher ''00:11:22:33:44:55:66:77'' = (NewMatcher, Some (BadLength 8)) \<and>
   Matcher_Add NewMatcher ''00:11:22:33:44:55'' =
     (NewMatcher\<lparr>macs := (macs NewMatcher)([0, 17, 34, 51, 68, 85] \<mapsto> ())\<rparr>, None) \<and>
   dom (macs (fst (Matcher_Add NewMatcher ''00:11:22:33:44:55''))) = {[0, 17, 34, 51, 68, 85]}"
proof -
  have a: "Matcher_Add NewMatcher ''00:11:22:33:44'' =
     (NewMatcher, Some (InvalidMAC ''00:11:22:33:44'' (AddrError ''00:11:22:33:44'')))"
    using Matcher_Add_six_bytes_only
      [of "''00:11:22:33:44''" "AddrError ''00:11:22:33:44''" NewMatcher]
    by (simp add: ParseMAC_short)
  have b: "Matcher_Add NewMatcher ''00:11:22:33:44:55:66:77'' = (NewMatcher, Some (BadLength 8))"
    using Matcher_Add_six_bytes_only
      [of "''00:11:22:33:44:55:66:77''" _ NewMatcher "[0, 17, 34, 51, 68, 85, 102, 119]"]
    by (simp add: ParseMAC_eui64)
  have c: "Matcher_Add NewMatcher ''00:11:22:33:44:55'' =
     (NewMatcher\<lparr>macs := (macs NewMatcher)([0, 17, 34, 51, 68, 85] \<mapsto> ())\<rparr>, None)"
    using Matcher_Add_six_bytes_only
      [of "''00:11:22:33:44:55''" _ NewMatcher "[0, 17, 34, 51, 68, 85]"]
    by (simp add: ParseMAC_001122)
  have d: "dom (macs (fst (Matcher_Add NewMatcher ''00:11:22:33:44:55''))) = {[0, 17, 34, 51, 68, 85]}"
    unfolding c by (simp add: NewMatcher_def)
  from a b c d show ?thesis by (intro conjI)
qed

section \<open>Case of the letters\<close>

lemma bv_lt: "bv c < 256"
  by (simp add: bv_def)

lemma bv_char_of: "n < 256 \<Longrightarrow> bv (char_of n) = n"
  by (simp add: bv_def take_bit_eq_mod)

lemma bv_consts:
  "bv CHR ''0'' = 48" "bv CHR ''9'' = 57" "bv CHR ''a'' = 97" "bv CHR ''f'' = 102"
  "bv CHR ''A'' = 65" "bv CHR ''F'' = 70" "bv CHR ''Z'' = 90"
  by (simp_all add: bv_def)

lemma bv_toLower: "bv (toLower c) = (if 65 \<le> bv c \<and> bv c \<le> 90 then bv c + 32 else bv c)"
  by (simp add: toLower_def bv_consts bv_char_of)


lemma hexval_num:
  "hexval c =
     (if 48 \<le> bv c \<and> bv c \<le> 57 then Some (bv c - 48)
      else if 97 \<le> bv c \<and> bv c \<le> 102 then Some (bv c - 97 + 10)
      else if 65 \<le> bv c \<and> bv c \<le> 70 then Some (bv c - 65 + 10)
      else None)"
  by (simp only: hexval_def bv_consts)

lemma hexval_toLower: "hexval (toLower c) = hexval c"
  unfolding hexval_num bv_toLower by auto


lemma bv_inj: "bv c = bv d \<Longrightarrow> c = d"
  by (simp add: bv_def)

lemma toLower_sep:
  "e = CHR '':'' \<or> e = CHR ''-'' \<or> e = CHR ''.'' \<Longrightarrow> (toLower c = e) = (c = e)"
proof -
  assume e: "e = CHR '':'' \<or> e = CHR ''-'' \<or> e = CHR ''.''"
  then have be: "bv e < 65" by (auto simp: bv_def)
  show ?thesis
  proof
    assume "toLower c = e"
    then have "bv (toLower c) = bv e" by simp
    with be have "bv c = bv e" by (auto simp: bv_toLower split: if_splits)
    then show "c = e" by (rule bv_inj)
  next
    assume "c = e"
    with be show "toLower c = e" by (simp add: toLower_def bv_def)
  qed
qed

lemma xtoi_loop_toLower: "xtoi_loop (map toLower s) n i = xtoi_loop s n i"
  by (induction s arbitrary: n i) (simp_all add: hexval_toLower split: option.splits)

lemma xtoi2_toLower:
  "e = CHR '':'' \<or> e = CHR ''-'' \<or> e = CHR ''.'' \<or> length s \<le> 2 \<Longrightarrow>
     xtoi2 (map toLower s) e = xtoi2 s e"
  by (auto simp: xtoi2_def xtoi_def take_map xtoi_loop_toLower toLower_sep)

lemma colon_loop_toLower:
  "e = CHR '':'' \<or> e = CHR ''-'' \<Longrightarrow> colon_loop (map toLower s) e k = colon_loop s e k"
proof (induction k arbitrary: s)
  case 0
  then show ?case by simp
next
  case (Suc k)
  have "xtoi2 (map toLower s) e = xtoi2 s e" using Suc.prems xtoi2_toLower [of e s] by blast
  moreover have "colon_loop (map toLower (drop 3 s)) e k = colon_loop (drop 3 s) e k"
    using Suc by blast
  ultimately show ?case by (simp add: drop_map)
qed

lemma dot_loop_toLower:
  "e = CHR ''.'' \<Longrightarrow> dot_loop (map toLower s) e k = dot_loop s e k"
proof (induction k arbitrary: s)
  case 0
  then show ?case by simp
next
  case (Suc k)
  have a: "xtoi2 (map toLower (take 2 s)) (CHR 0x00) = xtoi2 (take 2 s) (CHR 0x00)"
    using xtoi2_toLower [of "CHR 0x00" "take 2 s"] by simp
  have b: "xtoi2 (map toLower (drop 2 s)) e = xtoi2 (drop 2 s) e"
    using xtoi2_toLower [of e "drop 2 s"] Suc.prems by simp
  have c: "dot_loop (map toLower (drop 5 s)) e k = dot_loop (drop 5 s) e k"
    using Suc by blast
  show ?case by (simp add: a b c drop_map take_map)
qed

lemma ParseMAC_toLower: "(ParseMAC (map toLower s) = Inr hw) = (ParseMAC s = Inr hw)"
proof (cases "length s < 14")
  case True
  then show ?thesis by (simp add: ParseMAC_def)
next
  case False
  then have n2: "map toLower s ! 2 = toLower (s ! 2)" and n4: "map toLower s ! 4 = toLower (s ! 4)"
    by simp_all
  show ?thesis
  proof (cases "s ! 2 = CHR '':'' \<or> s ! 2 = CHR ''-''")
    case True
    then have "map toLower s ! 2 = s ! 2" unfolding n2 by (auto simp: toLower_sep)
    with True False show ?thesis
      by (simp add: ParseMAC_def Let_def colon_loop_toLower split: option.splits)
  next
    case no: False
    then have no': "\<not> (map toLower s ! 2 = CHR '':'' \<or> map toLower s ! 2 = CHR ''-'')"
      unfolding n2 by (simp add: toLower_sep)
    show ?thesis
    proof (cases "s ! 4 = CHR ''.''")
      case True
      then have "map toLower s ! 4 = s ! 4" unfolding n4 by (simp add: toLower_sep)
      with True False no no' show ?thesis
        by (simp add: ParseMAC_def Let_def dot_loop_toLower split: option.splits)
    next
      case F: False
      then have "map toLower s ! 4 \<noteq> CHR ''.''" unfolding n4 by (simp add: toLower_sep)
      with F False no no' show ?thesis by (simp add: ParseMAC_def)
    qed
  qed
qed

text \<open>
  C6.  After \<open>Add L\<close> has succeeded, every case variant \<open>L'\<close> of \<open>L\<close> parses, to the
  address \<open>L\<close> parses to, and \<open>Match\<close> on that address is true: the case of the letters
  is gone once the literal is parsed, at insertion and at the query alike.
\<close>

theorem Matcher_case_insensitive:
  assumes "Matcher_Add m L = (m', None)" and "map toLower L' = map toLower L"
  shows "\<exists>hw. ParseMAC L = Inr hw \<and> ParseMAC L' = Inr hw \<and> Matcher_Match m' hw"
proof -
  from assms(1) obtain hw where hw: "ParseMAC L = Inr hw" "length hw = 6" "m' = Matcher_add m hw"
    by (auto simp: Matcher_Add_def split: sum.splits if_splits)
  from hw(1) have "ParseMAC (map toLower L') = Inr hw" by (simp add: assms(2) ParseMAC_toLower)
  then have "ParseMAC L' = Inr hw" by (simp add: ParseMAC_toLower)
  moreover have "Matcher_Match m' hw"
    using hw(2,3) by (simp add: Matcher_Match_def Matcher_add_def copy_key_six)
  ultimately show ?thesis using hw(1) by blast
qed

lemma toLower_simps:
  "toLower CHR ''A'' = CHR ''a''" "toLower CHR ''B'' = CHR ''b''" "toLower CHR ''C'' = CHR ''c''"
  "toLower CHR ''D'' = CHR ''d''" "toLower CHR ''E'' = CHR ''e''" "toLower CHR ''F'' = CHR ''f''"
  "toLower CHR ''a'' = CHR ''a''" "toLower CHR ''b'' = CHR ''b''" "toLower CHR ''c'' = CHR ''c''"
  "toLower CHR ''d'' = CHR ''d''" "toLower CHR ''e'' = CHR ''e''" "toLower CHR ''f'' = CHR ''f''"
  "toLower CHR '':'' = CHR '':''"
  by (simp_all add: toLower_def bv_def char_of_eq_iff)

lemma Matcher_Add_aabb:
  "Matcher_Add NewMatcher ''aa:bb:cc:dd:ee:ff'' =
     (Matcher_add NewMatcher [0xAA, 0xBB, 0xCC, 0xDD, 0xEE, 0xFF], None)"
  by (simp add: Matcher_Add_def ParseMAC_colon colon_loop_numeral xtoi2_pair hexval_simps)

theorem Matcher_case_insensitive_witness:
  "\<exists>hw. ParseMAC ''aa:bb:cc:dd:ee:ff'' = Inr hw \<and> ParseMAC ''Aa:Bb:Cc:Dd:Ee:Ff'' = Inr hw \<and>
        Matcher_Match (Matcher_add NewMatcher [0xAA, 0xBB, 0xCC, 0xDD, 0xEE, 0xFF]) hw"
  using Matcher_case_insensitive [OF Matcher_Add_aabb, of "''Aa:Bb:Cc:Dd:Ee:Ff''"]
  by (simp add: toLower_simps)


section \<open>Blank entries\<close>

lemma Load_blank: "only_space s \<Longrightarrow> Load Add m s = (m, None)"
  by (simp add: Load_def TrimSpace_Nil_iff)

lemma BatchLoad_skip:
  "only_space s \<Longrightarrow> BatchLoad Add m (xs @ s # ys) = BatchLoad Add m (xs @ ys)"
  by (induction xs arbitrary: m) (simp_all add: Load_blank split: prod.splits option.splits)

lemma only_space_Cons_ascii:
  "bv c < 0x80 \<Longrightarrow> only_space (c # s) = (asciiSpace c \<and> only_space s)"
  by (simp add: only_space.simps [of "c # s"] DecodeRune_ascii asciiSpace_IsSpace)

lemma only_space_not_provider: "only_space s \<Longrightarrow> \<not> HasPrefix s ''provider:''"
proof
  assume o: "only_space s" and "HasPrefix s ''provider:''"
  then obtain rest where "s = CHR ''p'' # rest"
    by (cases s) (auto simp: HasPrefix_def)
  with o show False by (simp add: only_space_Cons_ascii asciiSpace_def bv_def)
qed

lemma BatchLoadMacProvider_loop_skip:
  "only_space s \<Longrightarrow>
     BatchLoadMacProvider_loop (xs @ s # ys) mg sm w = BatchLoadMacProvider_loop (xs @ ys) mg sm w"
proof (induction xs arbitrary: mg sm w)
  case Nil
  then show ?case by (simp add: only_space_not_provider Load_blank)
next
  case (Cons x xs)
  then show ?case
    by (simp add: Let_def split: option.splits prod.splits)
qed

text \<open>
  C10.  On a string of whitespace only, the empty string among them, \<open>Load\<close> returns
  nil and the matcher as it was, whatever the method \<open>Add\<close> of the matcher would do: it
  is not called.  Such an entry in the list given to \<open>BatchLoad\<close> or to
  \<open>BatchLoadMacProvider\<close> is skipped: with the entry or without it the store, the
  matchers and the error returned are the same.
\<close>

theorem blank_entries_skipped:
  assumes "only_space s"
  shows "Load Add m s = (m, None) \<and>
         BatchLoad Add m (xs @ s # ys) = BatchLoad Add m (xs @ ys) \<and>
         BatchLoadMacProvider (xs @ s # ys) w = BatchLoadMacProvider (xs @ ys) w"
  using assms
  by (simp add: Load_blank BatchLoad_skip BatchLoadMacProvider_def BatchLoadMacProvider_loop_skip)

lemma only_space_example: "only_space [CHR 0x20, CHR 0xC2, CHR 0xA0, CHR 0x09]"
  by (simp add: only_space.simps [of "_ # _"] only_space.simps [of "[]"] DecodeRune_ascii
      DecodeRune_two bv_def IsSpace_def)

theorem blank_entries_skipped_witness:
  "Load (\<lambda>m s. (m, Some (BadLength 0))) NewMatcher [CHR 0x20, CHR 0xC2, CHR 0xA0, CHR 0x09]
     = (NewMatcher, None) \<and>
   BatchLoad Matcher_Add NewMatcher [''00:11:22:33:44:55'', [CHR 0x20, CHR 0xC2, CHR 0xA0, CHR 0x09], '''']
     = BatchLoad Matcher_Add NewMatcher [''00:11:22:33:44:55'', ''''] \<and>
   BatchLoadMacProvider [''00:11:22:33:44:55'', [CHR 0x20, CHR 0xC2, CHR 0xA0, CHR 0x09], '''']
       \<lparr>cells = [], providers = Map.empty\<rparr>
     = BatchLoadMacProvider [''00:11:22:33:44:55'', ''''] \<lparr>cells = [], providers = Map.empty\<rparr>"
  using blank_entries_skipped [OF only_space_example, of "\<lambda>m s. (m, Some (BadLength 0))" NewMatcher]
    blank_entries_skipped [OF only_space_example, of Matcher_Add NewMatcher "[''00:11:22:33:44:55'']" "['''']"
      "\<lparr>cells = [], providers = Map.empty\<rparr>"]
  by simp


section \<open>ParseTextMacFile\<close>

lemma HasPrefix_hash: "HasPrefix s ''#'' = (s \<noteq> [] \<and> hd s = CHR ''#'')"
  by (cases s) (auto simp: HasPrefix_def)

lemma line_skipped: "(length (TrimSpace l) = 0 \<or> HasPrefix (TrimSpace l) ''#'') = skipped l"
  using TrimSpace_hd [of l] by (auto simp: HasPrefix_hash TrimSpace_Nil_iff skipped_def)

lemma Load_trimmed: "\<not> only_space l \<Longrightarrow> Load Add m (TrimSpace l) = Add m (TrimSpace l)"
  by (simp add: Load_def TrimSpace_idem TrimSpace_Nil_iff)

lemma loop_refines:
  "\<forall>l\<in>set (raw_lines r). length l < MaxScanTokenSize \<Longrightarrow>
     LoadFromTextReader_loop Matcher_Add m r n = parse_lines m (n + 1) (map dropCR (raw_lines r))"
proof (induction r arbitrary: m n rule: raw_lines.induct)
  case (1 r)
  show ?case
  proof (cases "r = []")
    case True
    then show ?thesis
      by (simp add: LoadFromTextReader_loop.simps [where r = "[]"] Scan_def raw_lines.simps [of "[]"])
  next
    case False
    define l where "l = takeWhile (\<lambda>c. c \<noteq> CHR 0x0A) r"
    define r' where "r' = drop (length l + 1) r"
    have rl: "raw_lines r = l # raw_lines r'"
      using False by (simp add: raw_lines.simps [of r] l_def r'_def Let_def)
    with "1.prems" have short: "length l < MaxScanTokenSize"
      and rest: "\<forall>l\<in>set (raw_lines r'). length l < MaxScanTokenSize" by simp_all
    have sc: "Scan r = Token (dropCR l) r'"
      using False short by (simp add: Scan_def l_def [symmetric] r'_def Let_def)
    have ih: "LoadFromTextReader_loop Matcher_Add m' r' n' =
                parse_lines m' (n' + 1) (map dropCR (raw_lines r'))" for m' n'
      using "1.IH" [OF False l_def] rest unfolding r'_def [symmetric] by blast
    have step: "LoadFromTextReader_loop Matcher_Add m r n =
        (if length (TrimSpace (dropCR l)) = 0 \<or> HasPrefix (TrimSpace (dropCR l)) ''#''
         then LoadFromTextReader_loop Matcher_Add m r' (n + 1)
         else (case Load Matcher_Add m (TrimSpace (dropCR l)) of
                 (m', Some err) \<Rightarrow> (m', Some (LineError (n + 1) err))
               | (m', None) \<Rightarrow> LoadFromTextReader_loop Matcher_Add m' r' (n + 1)))"
      by (subst LoadFromTextReader_loop.simps) (simp add: sc Let_def)
    show ?thesis
    proof (cases "skipped (dropCR l)")
      case True
      then show ?thesis
        unfolding step line_skipped ih rl by simp
    next
      case F: False
      then have "\<not> only_space (dropCR l)" by (simp add: skipped_def)
      with F show ?thesis
        unfolding step line_skipped ih rl by (simp add: Load_trimmed)
    qed
  qed
qed


lemma Matcher_Add_error: "snd (Matcher_Add m p) = snd (Matcher_Add m' p)"
  by (simp add: Matcher_Add_def split: sum.splits)

lemma Matcher_Add_failed: "snd (Matcher_Add m p) = Some e \<Longrightarrow> Matcher_Add m p = (m, Some e)"
  by (auto simp: Matcher_Add_def split: sum.splits if_splits)

lemma Matcher_Add_done:
  "snd (Matcher_Add m p) = None \<Longrightarrow>
     \<exists>hw. ParseMAC p = Inr hw \<and> Matcher_Add m p = (m\<lparr>macs := (macs m)(hw \<mapsto> ())\<rparr>, None)"
  by (auto simp: Matcher_Add_def Matcher_add_def copy_key_six split: sum.splits if_splits)

lemma line_addrs_Cons:
  "line_addrs (l # ls) =
     (if skipped l then {} else {hw. ParseMAC (TrimSpace l) = Inr hw}) \<union> line_addrs ls"
  by (auto simp: line_addrs_def)

lemma parse_lines_ok:
  "\<forall>l\<in>set ls. \<not> malformed l \<Longrightarrow>
     snd (parse_lines m n ls) = None \<and>
     dom (macs (fst (parse_lines m n ls))) = dom (macs m) \<union> line_addrs ls"
proof (induction ls arbitrary: m n)
  case Nil
  then show ?case by (simp add: line_addrs_def)
next
  case (Cons l ls)
  show ?case
  proof (cases "skipped l")
    case True
    with Cons show ?thesis by (simp add: line_addrs_Cons)
  next
    case False
    with Cons.prems have "line_error l = None" by (simp add: malformed_def)
    then have "snd (Matcher_Add m (TrimSpace l)) = None"
      using Matcher_Add_error [of m "TrimSpace l" NewMatcher] by (simp add: line_error_def)
    from Matcher_Add_done [OF this] obtain hw where hw: "ParseMAC (TrimSpace l) = Inr hw"
      "Matcher_Add m (TrimSpace l) = (m\<lparr>macs := (macs m)(hw \<mapsto> ())\<rparr>, None)" by blast
    from Cons.IH [of "m\<lparr>macs := (macs m)(hw \<mapsto> ())\<rparr>" "n + 1"] Cons.prems
    show ?thesis using False hw by (auto simp: line_addrs_Cons)
  qed
qed

lemma parse_lines_bad:
  "\<forall>x\<in>set pre. \<not> malformed x \<Longrightarrow> \<not> skipped l \<Longrightarrow> line_error l = Some e \<Longrightarrow>
     snd (parse_lines m n (pre @ l # post)) = Some (LineError (n + length pre) e)"
proof (induction pre arbitrary: m n)
  case Nil
  then have "snd (Matcher_Add m (TrimSpace l)) = Some e"
    using Matcher_Add_error [of m "TrimSpace l" NewMatcher] by (simp add: line_error_def)
  from Matcher_Add_failed [OF this] Nil show ?case by simp
next
  case (Cons x pre)
  show ?case
  proof (cases "skipped x")
    case True
    with Cons show ?thesis by simp
  next
    case False
    with Cons.prems have "line_error x = None" by (simp add: malformed_def)
    then have "snd (Matcher_Add m (TrimSpace x)) = None"
      using Matcher_Add_error [of m "TrimSpace x" NewMatcher] by (simp add: line_error_def)
    from Matcher_Add_done [OF this] obtain hw where
      "Matcher_Add m (TrimSpace x) = (m\<lparr>macs := (macs m)(hw \<mapsto> ())\<rparr>, None)" by blast
    with Cons False show ?thesis by simp
  qed
qed

lemma ParseTextMacFile_lines:
  "\<forall>l\<in>set (raw_lines inp). length l < MaxScanTokenSize \<Longrightarrow>
     ParseTextMacFile inp =
       (case parse_lines NewMatcher 1 (lines_of inp) of
          (m, Some err) \<Rightarrow> (None, Some err) | (m, None) \<Rightarrow> (Some m, None))"
  by (simp add: ParseTextMacFile_def LoadFromTextReader_def loop_refines lines_of_def)

text \<open>
  C3 (amended).  For every input text none of whose physical lines reaches
  \<open>MaxScanTokenSize\<close> = 65536 bytes, \<open>ParseTextMacFile\<close> follows the format line by
  line: blank lines and comment lines are skipped, every other line is trimmed and
  parsed, and the first malformed line fails the parse with its number.
\<close>

theorem ParseTextMacFile_line_by_line:
  assumes "\<forall>l\<in>set (raw_lines inp). length l < MaxScanTokenSize"
  shows "line_by_line inp"
  unfolding line_by_line_def
proof (intro conjI allI impI)
  assume ok: "\<forall>l\<in>set (lines_of inp). \<not> malformed l"
  obtain m err where p: "parse_lines NewMatcher 1 (lines_of inp) = (m, err)"
    by (cases "parse_lines NewMatcher 1 (lines_of inp)")
  from parse_lines_ok [OF ok, of NewMatcher 1] p
  have "err = None" "dom (macs m) = line_addrs (lines_of inp)" by (simp_all add: NewMatcher_def)
  with p show "\<exists>m. ParseTextMacFile inp = (Some m, None) \<and> dom (macs m) = line_addrs (lines_of inp)"
    by (simp add: ParseTextMacFile_lines [OF assms])
next
  fix pre l post e
  assume a: "lines_of inp = pre @ l # post \<and> (\<forall>x\<in>set pre. \<not> malformed x) \<and>
              \<not> skipped l \<and> line_error l = Some e"
  then have "snd (parse_lines NewMatcher 1 (lines_of inp)) = Some (LineError (1 + length pre) e)"
    using parse_lines_bad [of pre l e NewMatcher 1 post] by simp
  then show "ParseTextMacFile inp = (None, Some (LineError (length pre + 1) e))"
    by (cases "parse_lines NewMatcher 1 (lines_of inp)") (simp add: ParseTextMacFile_lines [OF assms])
qed

lemma raw_lines_Nil: "raw_lines [] = []"
  by (simp add: raw_lines.simps)

lemma raw_lines_Cons:
  "raw_lines (c # cs) =
     takeWhile (\<lambda>c. c \<noteq> CHR 0x0A) (c # cs)
       # raw_lines (drop (length (takeWhile (\<lambda>c. c \<noteq> CHR 0x0A) (c # cs)) + 1) (c # cs))"
  by (subst raw_lines.simps) (simp add: Let_def)

lemma TrimSpace_ascii_id:
  assumes "s \<noteq> []" "bv (hd s) < 0x80" "\<not> asciiSpace (hd s)" "bv (last s) < 0x80"
    "\<not> asciiSpace (last s)"
  shows "TrimSpace s = s"
  using assms first_rune_ascii [of s] last_rune_ascii [of s]
  by (intro TrimSpace_trimmed_id) (simp add: trimmed_def)

lemma skip_space_ascii_id:
  "s \<noteq> [] \<Longrightarrow> bv (hd s) < 0x80 \<Longrightarrow> \<not> asciiSpace (hd s) \<Longrightarrow> skip_space s = s"
  using first_rune_ascii [of s] by (simp add: skip_space_id)

lemma skipped_ascii:
  "s \<noteq> [] \<Longrightarrow> bv (hd s) < 0x80 \<Longrightarrow> \<not> asciiSpace (hd s) \<Longrightarrow> skipped s = (hd s = CHR ''#'')"
  by (simp add: skipped_def only_space_skip skip_space_ascii_id)

lemma skipped_Nil: "skipped []"
  by (simp add: skipped_def only_space_skip skip_space_Nil)

lemma lines_comment: "raw_lines ''# comment\<newline>\<newline>00:11:22:33:44:55\<newline>'' = [''# comment'', [], ''00:11:22:33:44:55'']"
  by (simp add: raw_lines_Cons raw_lines_Nil)

lemma lines_five: "raw_lines ''00:11:22:33:44\<newline>'' = [''00:11:22:33:44'']"
  by (simp add: raw_lines_Cons raw_lines_Nil)

lemma trim_001122: "TrimSpace ''00:11:22:33:44:55'' = ''00:11:22:33:44:55''"
  by (rule TrimSpace_ascii_id) (simp_all add: asciiSpace_def bv_def)

lemma trim_five: "TrimSpace ''00:11:22:33:44'' = ''00:11:22:33:44''"
  by (rule TrimSpace_ascii_id) (simp_all add: asciiSpace_def bv_def)

lemma skipped_examples:
  "skipped ''# comment''" "\<not> skipped ''00:11:22:33:44:55''" "\<not> skipped ''00:11:22:33:44''"
  by (simp_all add: skipped_ascii asciiSpace_def bv_def)

theorem ParseTextMacFile_line_by_line_witness:
  "(\<exists>m. ParseTextMacFile ''# comment\<newline>\<newline>00:11:22:33:44:55\<newline>'' = (Some m, None) \<and>
        dom (macs m) = {[0, 17, 34, 51, 68, 85]} \<and> Matcher_Len m = 1) \<and>
   ParseTextMacFile ''00:11:22:33:44\<newline>'' =
     (None, Some (LineError 1 (InvalidMAC ''00:11:22:33:44'' (AddrError ''00:11:22:33:44''))))"
proof
  have "line_by_line ''# comment\<newline>\<newline>00:11:22:33:44:55\<newline>''"
    by (rule ParseTextMacFile_line_by_line) (simp add: lines_comment MaxScanTokenSize_def)
  then obtain m where "ParseTextMacFile ''# comment\<newline>\<newline>00:11:22:33:44:55\<newline>'' = (Some m, None)"
    "dom (macs m) = {[0, 17, 34, 51, 68, 85]}"
    by (auto simp: line_by_line_def lines_of_def lines_comment dropCR_def malformed_def skipped_Nil
        skipped_examples line_error_def trim_001122 Matcher_Add_def ParseMAC_001122 line_addrs_def)
  then show "\<exists>m. ParseTextMacFile ''# comment\<newline>\<newline>00:11:22:33:44:55\<newline>'' = (Some m, None) \<and>
        dom (macs m) = {[0, 17, 34, 51, 68, 85]} \<and> Matcher_Len m = 1"
    by (simp add: Matcher_Len_def)
next
  have "line_by_line ''00:11:22:33:44\<newline>''"
    by (rule ParseTextMacFile_line_by_line) (simp add: lines_five MaxScanTokenSize_def)
  then show "ParseTextMacFile ''00:11:22:33:44\<newline>'' =
     (None, Some (LineError 1 (InvalidMAC ''00:11:22:33:44'' (AddrError ''00:11:22:33:44''))))"
    unfolding line_by_line_def
    by (elim conjE allE [of _ "[]"] allE [of _ "''00:11:22:33:44''"] allE [of _ "InvalidMAC ''00:11:22:33:44'' (AddrError ''00:11:22:33:44'')"])
      (simp add: lines_of_def lines_five dropCR_def skipped_examples line_error_def trim_five
        Matcher_Add_def ParseMAC_short)
qed

lemma Scan_long: "c \<noteq> CHR 0x0A \<Longrightarrow> MaxScanTokenSize \<le> n \<Longrightarrow> Scan (replicate n c) = TooLong"
  by (auto simp: Scan_def takeWhile_replicate MaxScanTokenSize_def)

lemma ParseTextMacFile_long:
  "c \<noteq> CHR 0x0A \<Longrightarrow> MaxScanTokenSize \<le> n \<Longrightarrow>
     ParseTextMacFile (replicate n c) = (None, Some ErrTooLong)"
  by (simp add: ParseTextMacFile_def LoadFromTextReader_def LoadFromTextReader_loop.simps Scan_long)

lemma raw_lines_single: "r \<noteq> [] \<Longrightarrow> CHR 0x0A \<notin> set r \<Longrightarrow> raw_lines r = [r]"
proof -
  assume r: "r \<noteq> []" "CHR 0x0A \<notin> set r"
  then have t: "takeWhile (\<lambda>c. c \<noteq> CHR 0x0A) r = r" by (auto simp: takeWhile_eq_all_conv)
  have "raw_lines r = r # raw_lines (drop (length r + 1) r)"
    using r(1) by (subst raw_lines.simps) (simp only: t Let_def if_False)
  then show ?thesis by (simp add: raw_lines_Nil)
qed

lemma lines_of_long_comment:
  "0 < n \<Longrightarrow> lines_of (replicate n (CHR ''#'')) = [replicate n (CHR ''#'')]"
  by (simp add: lines_of_def raw_lines_single dropCR_def)

lemma skipped_long_comment: "0 < n \<Longrightarrow> skipped (replicate n (CHR ''#''))"
  by (cases n) (simp_all add: skipped_ascii asciiSpace_def bv_def)

text \<open>
  C3 as stated, for every input text, fails: a line of 65536 bytes stops the scanner
  with \<open>ErrTooLong\<close>, comment or not, and the error names no line.
\<close>

theorem ParseTextMacFile_long_line_counterexample:
  "\<not> line_by_line (replicate 65536 (CHR ''#''))"
proof
  assume "line_by_line (replicate 65536 (CHR ''#''))"
  moreover have "lines_of (replicate 65536 (CHR ''#'')) = [replicate 65536 (CHR ''#'')]"
    by (rule lines_of_long_comment) simp
  moreover have "skipped (replicate 65536 (CHR ''#''))"
    by (rule skipped_long_comment) simp
  moreover have "ParseTextMacFile (replicate 65536 (CHR ''#'')) = (None, Some ErrTooLong)"
    by (rule ParseTextMacFile_long) (simp_all add: MaxScanTokenSize_def)
  ultimately show False
    by (simp add: line_by_line_def malformed_def)
qed


section \<open>BatchLoadMacProvider\<close>

lemma ParseTextMacFile_empty: "ParseTextMacFile [] = (Some NewMatcher, None)"
  by (simp add: ParseTextMacFile_def LoadFromTextReader_def LoadFromTextReader_loop.simps Scan_def)

lemma parseFunc_empty: "parseFunc [] = (Some (Matcher_iface NewMatcher), None)"
  by (simp add: parseFunc_def ParseTextMacFile_empty)

lemma ParseTextMacFile_five:
  "ParseTextMacFile ''00:11:22:33:44\<newline>'' =
     (None, Some (LineError 1 (InvalidMAC ''00:11:22:33:44'' (AddrError ''00:11:22:33:44''))))"
proof -
  have "\<forall>l\<in>set (raw_lines ''00:11:22:33:44\<newline>''). length l < MaxScanTokenSize"
    by (simp add: lines_five MaxScanTokenSize_def)
  from ParseTextMacFile_lines [OF this] show ?thesis
    by (simp add: lines_of_def lines_five dropCR_def skipped_examples trim_five Matcher_Add_def
        ParseMAC_short)
qed

lemma parseFunc_five:
  "parseFunc ''00:11:22:33:44\<newline>'' =
     (None, Some (LineError 1 (InvalidMAC ''00:11:22:33:44'' (AddrError ''00:11:22:33:44''))))"
  by (simp add: parseFunc_def ParseTextMacFile_five)

text \<open>
  C1.  The claim: when a \<open>provider:\<close> entry fails after earlier entries have registered
  listeners, \<open>BatchLoadMacProvider\<close> returns an error and no group, and has
  deregistered those listeners before it returns.  The code returns at once on every
  error of the loop and runs no closer.  With the provider \<open>a\<close> registered and no
  provider \<open>b\<close>, the entries \<open>provider:a\<close>, \<open>provider:b\<close> give no group and the error
  of the missing provider, and the cell made for \<open>a\<close> is still among the listeners of
  \<open>a\<close>, with no group left to close.  On the successful path, for \<open>provider:a\<close> alone,
  \<open>Close\<close> of the group returned takes that listener off again.
\<close>

theorem BatchLoadMacProvider_leaves_listener:
  "(case BatchLoadMacProvider [''provider:a'', ''provider:b'']
           \<lparr>cells = [], providers = [''a'' \<mapsto> \<lparr>dp_data = [], dp_listeners = []\<rparr>]\<rparr> of
      (w, mg, err) \<Rightarrow>
        mg = None \<and> err = Some (ProviderNotFound ''b'') \<and>
        map_option dp_listeners (providers w ''a'') = Some [0]) \<and>
   (case BatchLoadMacProvider [''provider:a'']
           \<lparr>cells = [], providers = [''a'' \<mapsto> \<lparr>dp_data = [], dp_listeners = []\<rparr>]\<rparr> of
      (w, mg, err) \<Rightarrow>
        err = None \<and> map_option dp_listeners (providers w ''a'') = Some [0] \<and>
        (case mg of None \<Rightarrow> False
         | Some g \<Rightarrow>
             map_option dp_listeners (providers (fst (LocalMatcherGroup_Close g w)) ''a'') = Some []))"
  by (simp add: BatchLoadMacProvider_def HasPrefix_def TrimPrefix_def GetDataProvider_def
      LoadAndAddListener_def NewDynamicMatcher_def DynamicMatcher_Update_def parseFunc_empty
      NewLocalMatcherGroup_def Append_def AppendCloser_def LocalMatcherGroup_Close_def
      DeleteListener_def Let_def)

section \<open>Instances\<close>

theorem DynamicMatcher_failed_Update_keeps_snapshot_witness:
  "snd (d_parserFunc
          \<lparr>d_parserFunc = parseFunc,
             d_m = Some (Matcher_iface (Matcher_add NewMatcher [0, 17, 34, 51, 68, 85]))\<rparr>
          ''00:11:22:33:44\<newline>'') =
     Some (LineError 1 (InvalidMAC ''00:11:22:33:44'' (AddrError ''00:11:22:33:44''))) \<and>
   snd (DynamicMatcher_Update
          \<lparr>d_parserFunc = parseFunc,
             d_m = Some (Matcher_iface (Matcher_add NewMatcher [0, 17, 34, 51, 68, 85]))\<rparr>
          ''00:11:22:33:44\<newline>'') =
     Some (LineError 1 (InvalidMAC ''00:11:22:33:44'' (AddrError ''00:11:22:33:44''))) \<and>
   DynamicMatcher_Match
     (fst (DynamicMatcher_Update
          \<lparr>d_parserFunc = parseFunc,
             d_m = Some (Matcher_iface (Matcher_add NewMatcher [0, 17, 34, 51, 68, 85]))\<rparr>
          ''00:11:22:33:44\<newline>'')) () [0, 17, 34, 51, 68, 85] = True \<and>
   DynamicMatcher_Len
     (fst (DynamicMatcher_Update
          \<lparr>d_parserFunc = parseFunc,
             d_m = Some (Matcher_iface (Matcher_add NewMatcher [0, 17, 34, 51, 68, 85]))\<rparr>
          ''00:11:22:33:44\<newline>'')) () = 1"
  using DynamicMatcher_failed_Update_keeps_snapshot
    [of "\<lparr>d_parserFunc = parseFunc,
             d_m = Some (Matcher_iface (Matcher_add NewMatcher [0, 17, 34, 51, 68, 85]))\<rparr>"
        "''00:11:22:33:44\<newline>''"
        "LineError 1 (InvalidMAC ''00:11:22:33:44'' (AddrError ''00:11:22:33:44''))"
        "()" "[0, 17, 34, 51, 68, 85]"]
  by (simp add: parseFunc_five DynamicMatcher_Match_def DynamicMatcher_Len_def Matcher_iface_def
      Matcher_Match_def Matcher_Len_def Matcher_add_def NewMatcher_def copy_key_def)

theorem DynamicMatcher_never_updated_witness:
  "snd (parseFunc ''00:11:22:33:44\<newline>'') \<noteq> None \<and>
   DynamicMatcher_Match
     (Updates (NewDynamicMatcher parseFunc) [''00:11:22:33:44\<newline>'', ''00:11:22:33:44\<newline>''])
     () [0, 17, 34, 51, 68, 85] = False \<and>
   DynamicMatcher_Len
     (Updates (NewDynamicMatcher parseFunc) [''00:11:22:33:44\<newline>'', ''00:11:22:33:44\<newline>''])
     () = 0 \<and>
   DynamicMatcher_Close
     (Updates (NewDynamicMatcher parseFunc) [''00:11:22:33:44\<newline>'', ''00:11:22:33:44\<newline>''])
     () = ((), None)"
  using DynamicMatcher_never_updated
    [of "[''00:11:22:33:44\<newline>'', ''00:11:22:33:44\<newline>'']" parseFunc "()" "[0, 17, 34, 51, 68, 85]"]
  by (simp add: parseFunc_five)



end
